theory Spec2Isabelle
  imports Complex_Main "HOL-Library.AList"
begin

section \<open>The request server of \<^verbatim>\<open>server/server.py\<close>\<close>

text \<open>
  The module keeps three globals, \<^verbatim>\<open>metrics\<close>, \<^verbatim>\<open>session_data\<close> and
  \<^verbatim>\<open>file_cache\<close>, and every function below reads and writes them. The model passes
  them around as one record, \<open>world\<close>. Whatever the code reads from outside (the
  socket, the clock, \<^verbatim>\<open>uuid4\<close>, the files under \<^verbatim>\<open>server/static\<close>) is an argument,
  and what it does to the socket and the logger is returned as a list of events.

  Numbers: status codes and counters are Python ints, modelled as \<open>int\<close>. Response
  times are Python floats, binary64 numbers; the model keeps the real number a float
  stands for. The arithmetic that decides the average and the order of the percentiles
  (the sum and the division in \<^verbatim>\<open>record\<close>, the interpolation inside
  \<^verbatim>\<open>statistics.quantiles\<close> and the scaling of its cut point to milliseconds) rounds
  every result to binary64, as the code does. Where a value is only scaled or rounded to
  decimals and carried along, the model keeps the exact number. Text is modelled as
  \<open>string\<close>, a list of characters with code points below 256.
\<close>

subsection \<open>Python built-ins used by the module\<close>

datatype error =
  IndexError | ValueError | StatisticsError | OSError

text \<open>\<^verbatim>\<open>int(x)\<close> on a float truncates towards zero.\<close>

definition py_int :: "real \<Rightarrow> int" where
  "py_int x = (if 0 \<le> x then \<lfloor>x\<rfloor> else \<lceil>x\<rceil>)"

text \<open>\<^verbatim>\<open>round(x, d)\<close>: to the nearest multiple of \<open>10\<^sup>-\<^sup>d\<close>, a tie to the even one.\<close>

definition round_half_even :: "real \<Rightarrow> int" where
  "round_half_even y =
     (let f = \<lfloor>y\<rfloor>; r = y - of_int f
      in if r < 1 / 2 then f
         else if 1 / 2 < r then f + 1
         else if even f then f else f + 1)"

definition py_round :: "real \<Rightarrow> nat \<Rightarrow> real" where
  "py_round x d = of_int (round_half_even (x * 10 ^ d)) / 10 ^ d"

text \<open>
  Binary64 arithmetic: the result of an operation is the exact result rounded to the
  nearest number with 53 significant bits, a tie to the one whose last bit is even.
  \<open>binade x\<close> is the exponent of the power of two at or below \<open>\<bar>x\<bar>\<close>, \<open>fl_exp x\<close> the
  exponent of the spacing of the binary64 numbers around \<open>x\<close> (never below \<open>-1074\<close>,
  the spacing of the subnormal numbers), and \<open>fl x\<close> the multiple of that spacing
  nearest to \<open>x\<close>. Overflow to infinity, from \<open>2\<^sup>1\<^sup>0\<^sup>2\<^sup>4\<close> on, is not modelled.
\<close>

definition binade :: "real \<Rightarrow> int" where
  "binade x = \<lfloor>log 2 \<bar>x\<bar>\<rfloor>"

definition fl_exp :: "real \<Rightarrow> int" where
  "fl_exp x = max (binade x - 52) (- 1074)"

definition fl :: "real \<Rightarrow> real" where
  "fl x = (if x = 0 then 0
           else of_int (round_half_even (x / 2 powi fl_exp x)) * 2 powi fl_exp x)"

text \<open>
  \<^verbatim>\<open>sum(xs)\<close> on floats, as CPython up to 3.11 computes it: from 0, one rounded addition
  for each element, left to right.
\<close>

definition float_sum :: "real list \<Rightarrow> real" where
  "float_sum xs = foldl (\<lambda>acc x. fl (acc + x)) 0 xs"

text \<open>
  \<^verbatim>\<open>xs[k]\<close>: from the front for \<open>k\<close> from 0, from the back for a negative \<open>k\<close>
  down to minus the length, and \<^verbatim>\<open>IndexError\<close> for any other \<open>k\<close>.
\<close>

definition py_index :: "'a list \<Rightarrow> int \<Rightarrow> error + 'a" where
  "py_index xs k =
     (if 0 \<le> k \<and> k < int (length xs) then Inr (xs ! nat k)
      else if k < 0 \<and> - int (length xs) \<le> k then Inr (xs ! nat (int (length xs) + k))
      else Inl IndexError)"

text \<open>\<^verbatim>\<open>xs[-k:]\<close> for a positive constant \<open>k\<close>: the last \<open>k\<close> elements.\<close>

definition last_n :: "nat \<Rightarrow> 'a list \<Rightarrow> 'a list" where
  "last_n k xs = drop (length xs - k) xs"

text \<open>\<^verbatim>\<open>str(n)\<close> for an int.\<close>

definition digit_char :: "nat \<Rightarrow> char" where
  "digit_char d = ''0123456789'' ! d"

fun str_nat :: "nat \<Rightarrow> string" where
  "str_nat n = (if n < 10 then [digit_char n] else str_nat (n div 10) @ [digit_char (n mod 10)])"

declare str_nat.simps [simp del]

definition str_int :: "int \<Rightarrow> string" where
  "str_int i = (if i < 0 then CHR ''-'' # str_nat (nat (- i)) else str_nat (nat i))"

text \<open>
  \<^verbatim>\<open>str.isspace\<close> on the code points below 256: tab to carriage return, the four
  separators 28 to 31, space, NEL and the no-break space.
\<close>

definition is_space :: "char \<Rightarrow> bool" where
  "is_space c = (let n = (of_char c :: nat)
                 in (9 \<le> n \<and> n \<le> 13) \<or> (28 \<le> n \<and> n \<le> 32) \<or> n = 133 \<or> n = 160)"

text \<open>\<^verbatim>\<open>s.split()\<close>: the maximal runs of characters that are not white space.\<close>

fun split_ws_aux :: "string \<Rightarrow> string \<Rightarrow> string list" where
  "split_ws_aux cur [] = (if cur = [] then [] else [rev cur])"
| "split_ws_aux cur (c # cs) =
     (if is_space c
      then (if cur = [] then split_ws_aux [] cs else rev cur # split_ws_aux [] cs)
      else split_ws_aux (c # cur) cs)"

definition split_ws :: "string \<Rightarrow> string list" where
  "split_ws s = split_ws_aux [] s"

text \<open>\<^verbatim>\<open>s.split("\r\n")\<close>: cut at every CR LF, left to right; never the empty list.\<close>

fun split_crlf_aux :: "string \<Rightarrow> string \<Rightarrow> string list" where
  "split_crlf_aux cur [] = [rev cur]"
| "split_crlf_aux cur [c] = [rev (c # cur)]"
| "split_crlf_aux cur (c # d # cs) =
     (if c = CHR 0x0D \<and> d = CHR 0x0A then rev cur # split_crlf_aux [] cs
      else split_crlf_aux (c # cur) (d # cs))"

definition split_crlf :: "string \<Rightarrow> string list" where
  "split_crlf s = split_crlf_aux [] s"

text \<open>\<^verbatim>\<open>s.strip()\<close>, \<^verbatim>\<open>s.lstrip("/")\<close>, \<^verbatim>\<open>s.split(":", 1)\<close> on a line that holds a colon.\<close>

definition strip :: "string \<Rightarrow> string" where
  "strip s = rev (dropWhile is_space (rev (dropWhile is_space s)))"

definition lstrip_slash :: "string \<Rightarrow> string" where
  "lstrip_slash s = dropWhile (\<lambda>c. c = CHR ''/'') s"

definition split_colon1 :: "string \<Rightarrow> string \<times> string" where
  "split_colon1 s = (takeWhile (\<lambda>c. c \<noteq> CHR '':'') s, tl (dropWhile (\<lambda>c. c \<noteq> CHR '':'') s))"

text \<open>\<^verbatim>\<open>s.lower()\<close> on the code points below 256.\<close>

definition lower_char :: "char \<Rightarrow> char" where
  "lower_char c =
     (let n = (of_char c :: nat)
      in if (65 \<le> n \<and> n \<le> 90) \<or> (192 \<le> n \<and> n \<le> 222 \<and> n \<noteq> 215) then char_of (n + 32) else c)"

definition lower :: "string \<Rightarrow> string" where
  "lower s = map lower_char s"

text \<open>\<^verbatim>\<open>sub in s\<close>.\<close>

fun contains :: "string \<Rightarrow> string \<Rightarrow> bool" where
  "contains sub [] = (sub = [])"
| "contains sub (c # cs) = (take (length sub) (c # cs) = sub \<or> contains sub cs)"

text \<open>\<^verbatim>\<open>s.encode("utf-8")\<close> on the code points below 256: one byte, or two from 128 on.\<close>

definition utf8_char :: "char \<Rightarrow> string" where
  "utf8_char c =
     (let n = (of_char c :: nat)
      in if n < 128 then [c] else [char_of (192 + n div 64), char_of (128 + n mod 64)])"

definition utf8 :: "string \<Rightarrow> string" where
  "utf8 s = concat (map utf8_char s)"

subsection \<open>The globals: \<^verbatim>\<open>metrics\<close>, \<^verbatim>\<open>session_data\<close>, \<^verbatim>\<open>file_cache\<close>\<close>

text \<open>One entry of \<^verbatim>\<open>metrics["recent_requests"]\<close>.\<close>

record request_entry =
  rq_ip :: string
  rq_path :: string
  rq_response_time :: real
  rq_status_code :: int
  rq_time :: string
  rq_country :: string

text \<open>One value of \<^verbatim>\<open>session_data\<close>; \<^verbatim>\<open>last_path\<close> starts as \<^verbatim>\<open>None\<close>.\<close>

record session =
  session_id :: string
  first_seen :: string
  last_seen :: string
  hit_count :: int
  last_path :: "string option"
  device_type :: string

record metrics_dict =
  active_clients :: int
  total_requests :: int
  average_response_time :: real
  recent_requests :: "request_entry list"
  cache_enabled :: bool
  cache_hits :: int
  cache_misses :: int
  response_times :: "real list"
  unique_sessions :: int
  thread_pool_size :: int
  queue_size :: int
  latency_trend :: "real list"
  status_codes :: "string \<rightharpoonup> int"
  geo :: "string \<rightharpoonup> int"

text \<open>
  \<^verbatim>\<open>session_data\<close> is a dict whose order is read (\<^verbatim>\<open>list(session_data.values())[:20]\<close>),
  so it is an association list in insertion order: \<open>AList.update\<close> replaces the value
  of a key in place and appends a new key, as a Python dict does. \<^verbatim>\<open>file_cache\<close> maps a
  path to the body of its \<^verbatim>\<open>{"body": body}\<close>.
\<close>

record world =
  metrics :: metrics_dict
  session_data :: "(string \<times> session) list"
  file_cache :: "string \<rightharpoonup> string"

definition initial_metrics :: metrics_dict where
  "initial_metrics =
     \<lparr>active_clients = 0, total_requests = 0, average_response_time = 0,
      recent_requests = [], cache_enabled = True, cache_hits = 0, cache_misses = 0,
      response_times = [], unique_sessions = 0, thread_pool_size = 10, queue_size = 0,
      latency_trend = [],
      status_codes = [''200'' \<mapsto> 0, ''400'' \<mapsto> 0, ''404'' \<mapsto> 0, ''500'' \<mapsto> 0],
      geo = Map.empty\<rparr>"

definition initial_world :: world where
  "initial_world = \<lparr>metrics = initial_metrics, session_data = [], file_cache = Map.empty\<rparr>"

definition MAX_RECENT :: nat where
  "MAX_RECENT = 100"

definition MAX_LAT :: nat where
  "MAX_LAT = 120"

subsection \<open>\<^verbatim>\<open>detect_device\<close> and \<^verbatim>\<open>guess_country_from_ip\<close>\<close>

definition detect_device :: "string \<Rightarrow> string" where
  "detect_device ua0 =
     (let ua = lower ua0
      in if contains ''mobile'' ua \<or> contains ''android'' ua \<or> contains ''iphone'' ua
         then ''mobile''
         else if contains ''tablet'' ua \<or> contains ''ipad'' ua then ''tablet''
         else ''desktop'')"

definition buckets :: "string list" where
  "buckets = [''IN'', ''US'', ''GB'', ''DE'', ''FR'', ''AU'', ''BR'']"

definition guess_country_from_ip :: "string \<Rightarrow> string" where
  "guess_country_from_ip addr =
     buckets ! (sum_list (map (\<lambda>c. (of_char c :: nat)) addr) mod length buckets)"

subsection \<open>\<^verbatim>\<open>WebServer.record\<close>\<close>

text \<open>
  What one call of \<^verbatim>\<open>record\<close> reads from outside: the session id it would give a new
  session (\<^verbatim>\<open>uuid.uuid4().hex[:16]\<close>) and its four readings of \<^verbatim>\<open>now()\<close>, in the order
  of the calls.
\<close>

record record_env =
  rec_uuid :: string
  now_entry :: string
  now_first :: string
  now_last :: string
  now_seen :: string

text \<open>
  \<^verbatim>\<open>if k not in d: d[k] = 0\<close> followed by \<^verbatim>\<open>d[k] += 1\<close>, as \<^verbatim>\<open>record\<close> does for the
  status code and for the country.
\<close>

definition bump :: "(string \<rightharpoonup> int) \<Rightarrow> string \<Rightarrow> (string \<rightharpoonup> int)" where
  "bump d k =
     (let d0 = (if d k = None then d(k \<mapsto> 0) else d)
      in d0(k \<mapsto> the (d0 k) + 1))"

definition new_entry :: "record_env \<Rightarrow> string \<Rightarrow> string \<Rightarrow> real \<Rightarrow> int \<Rightarrow> request_entry" where
  "new_entry env addr path rt status_code =
     \<lparr>rq_ip = addr, rq_path = path, rq_response_time = py_round rt 4,
      rq_status_code = status_code, rq_time = now_entry env,
      rq_country = guess_country_from_ip addr\<rparr>"

text \<open>The session book-keeping at the end of \<^verbatim>\<open>record\<close> (create if absent, then update).\<close>

definition record_session ::
  "record_env \<Rightarrow> string \<Rightarrow> string \<Rightarrow> string \<Rightarrow> (string \<times> session) list \<Rightarrow> (string \<times> session) list"
where
  "record_session env addr path device sd =
     (let sd0 = (if map_of sd addr = None
                 then AList.update addr
                        \<lparr>session_id = rec_uuid env, first_seen = now_first env,
                         last_seen = now_last env, hit_count = 0, last_path = None,
                         device_type = device\<rparr> sd
                 else sd);
          s = the (map_of sd0 addr)
      in AList.update addr
           (s\<lparr>hit_count := hit_count s + 1, last_seen := now_seen env,
              last_path := Some path, device_type := device\<rparr>) sd0)"

text \<open>
  The body of \<^verbatim>\<open>record\<close>, all of it under \<^verbatim>\<open>metrics_lock\<close>. The \<^verbatim>\<open>except\<close> around the
  average is the branch for an empty window.
\<close>

definition record_req ::
  "record_env \<Rightarrow> string \<Rightarrow> string \<Rightarrow> real \<Rightarrow> int \<Rightarrow> string \<Rightarrow> world \<Rightarrow> world"
where
  "record_req env addr path rt status_code device w =
     (let m = metrics w;
          samples = last_n 2000 (response_times m @ [rt]);
          avg = (if samples = [] then 0
                 else fl (float_sum samples / of_nat (length samples)));
          trend = last_n MAX_LAT (latency_trend m @ [rt * 1000]);
          codes = bump (status_codes m) (str_int status_code);
          recent = take MAX_RECENT (new_entry env addr path rt status_code # recent_requests m);
          sd = record_session env addr path device (session_data w);
          g = bump (geo m) (guess_country_from_ip addr)
      in w\<lparr>metrics := m\<lparr>total_requests := total_requests m + 1,
                          response_times := samples,
                          average_response_time := avg,
                          latency_trend := trend,
                          status_codes := codes,
                          recent_requests := recent,
                          geo := g\<rparr>,
            session_data := sd\<rparr>)"

subsection \<open>\<^verbatim>\<open>WebServer._ensure_session_for_ip\<close>\<close>

record ensure_env =
  ens_uuid :: string
  ens_first :: string
  ens_last :: string

text \<open>
  What the function does once its test \<^verbatim>\<open>ip in session_data\<close> has failed: it stores
  a fresh session under the address (replacing whatever is there by then) and, under the
  lock, sets \<^verbatim>\<open>unique_sessions\<close>.
\<close>

definition ensure_create :: "ensure_env \<Rightarrow> string \<Rightarrow> world \<Rightarrow> world \<times> string" where
  "ensure_create env addr w =
     (let sd = AList.update addr
                 \<lparr>session_id = ens_uuid env, first_seen = ens_first env,
                  last_seen = ens_last env, hit_count = 0, last_path = None,
                  device_type = ''unknown''\<rparr> (session_data w)
      in (w\<lparr>session_data := sd,
            metrics := (metrics w)\<lparr>unique_sessions := int (length sd)\<rparr>\<rparr>,
          ens_uuid env))"

definition ensure_session_for_ip :: "ensure_env \<Rightarrow> string \<Rightarrow> world \<Rightarrow> world \<times> string" where
  "ensure_session_for_ip env addr w =
     (case map_of (session_data w) addr of
        Some s \<Rightarrow> (w, session_id s)
      | None \<Rightarrow> ensure_create env addr w)"

subsection \<open>\<^verbatim>\<open>WebServer.get_file\<close>\<close>

text \<open>
  The files under \<^verbatim>\<open>server/static\<close>, as \<^verbatim>\<open>get_file\<close> sees them: a name is absent, a
  directory, a file that \<^verbatim>\<open>open\<close> and \<^verbatim>\<open>read\<close> return the text of, or a file on which
  one of them raises.
\<close>

datatype fs_entry = Absent | Directory | Readable string | Unreadable

definition path_exists :: "fs_entry \<Rightarrow> bool" where
  "path_exists e = (e \<noteq> Absent)"

definition isfile :: "fs_entry \<Rightarrow> bool" where
  "isfile e = (case e of Readable _ \<Rightarrow> True | Unreadable \<Rightarrow> True | _ \<Rightarrow> False)"

text \<open>\<^verbatim>\<open>os.path.join("server", "static", path.lstrip("/"))\<close> with \<^verbatim>\<open>/\<close> as separator.\<close>

definition static_loc :: "string \<Rightarrow> string" where
  "static_loc path = ''server/static/'' @ lstrip_slash path"

definition get_file :: "(string \<Rightarrow> fs_entry) \<Rightarrow> string \<Rightarrow> world \<Rightarrow> world \<times> string \<times> int" where
  "get_file fs path w =
     (if cache_enabled (metrics w) \<and> file_cache w path \<noteq> None
      then (w\<lparr>metrics := (metrics w)\<lparr>cache_hits := cache_hits (metrics w) + 1\<rparr>\<rparr>,
            the (file_cache w path), 200)
      else
        (let w1 = w\<lparr>metrics := (metrics w)\<lparr>cache_misses := cache_misses (metrics w) + 1\<rparr>\<rparr>;
             loc = static_loc path
         in if path_exists (fs loc) \<and> isfile (fs loc)
            then (case fs loc of
                    Readable body \<Rightarrow>
                      (if cache_enabled (metrics w1)
                       then w1\<lparr>file_cache := (file_cache w1)(path \<mapsto> body)\<rparr> else w1,
                       body, 200)
                  | _ \<Rightarrow> (w1, ''<h1>500 - File read error</h1>'', 500))
            else (w1, ''<h1>404 - Not Found</h1>'', 404)))"

subsection \<open>\<^verbatim>\<open>toggle_cache\<close>\<close>

definition toggle_cache :: "world \<Rightarrow> world \<times> bool" where
  "toggle_cache w =
     (let w1 = w\<lparr>metrics := (metrics w)\<lparr>cache_enabled := \<not> cache_enabled (metrics w)\<rparr>\<rparr>;
          w2 = (if \<not> cache_enabled (metrics w1) then w1\<lparr>file_cache := Map.empty\<rparr> else w1)
      in (w2, cache_enabled (metrics w2)))"

subsection \<open>\<^verbatim>\<open>_calc_percentiles\<close>\<close>

text \<open>
  \<^verbatim>\<open>statistics.quantiles(data, n=n)\<close> of the standard library, with its default method
  (\<^verbatim>\<open>exclusive\<close>): it raises on fewer than two data points, and its \<open>i\<close>-th cut point
  interpolates between two neighbours of the sorted data. The two products, their sum
  and the division are float operations; the index arithmetic is on ints.
\<close>

definition quantile_cut :: "real list \<Rightarrow> nat \<Rightarrow> nat \<Rightarrow> real" where
  "quantile_cut data n i =
     (let ld = length data; m = ld + 1;
          j0 = i * m div n;
          j = (if j0 < 1 then 1 else if ld - 1 < j0 then ld - 1 else j0);
          delta = int (i * m) - int (j * n)
      in fl (fl (fl (data ! (j - 1) * of_int (int n - delta)) + fl (data ! j * of_int delta))
             / of_nat n))"

definition quantiles :: "real list \<Rightarrow> nat \<Rightarrow> error + real list" where
  "quantiles xs n =
     (if n < 1 then Inl StatisticsError
      else let data = sort xs
           in if length data < 2 then Inl StatisticsError
              else Inr (map (quantile_cut data n) [1..<n]))"

text \<open>The first attempt of \<^verbatim>\<open>_calc_percentiles\<close>, the body of its \<^verbatim>\<open>try\<close>.\<close>

definition primary_percentile :: "real list \<Rightarrow> real \<Rightarrow> error + real" where
  "primary_percentile samples pct =
     (case quantiles samples 100 of
        Inl e \<Rightarrow> Inl e
      | Inr qs \<Rightarrow> (case py_index qs (py_int pct - 1) of
                    Inl e \<Rightarrow> Inl e
                  | Inr q \<Rightarrow> Inr (py_round (fl (1000 * q)) 2)))"

text \<open>The body of its \<^verbatim>\<open>except\<close>; an index out of range there is raised to the caller.\<close>

definition sorted_ms :: "real list \<Rightarrow> real list" where
  "sorted_ms samples = sort (map (\<lambda>t. t * 1000) samples)"

definition fallback_percentile :: "real list \<Rightarrow> real \<Rightarrow> error + real" where
  "fallback_percentile samples pct =
     (let times_ms = sorted_ms samples;
          idx = max 0 (py_int (of_nat (length times_ms) * pct / 100) - 1)
      in case py_index times_ms idx of
           Inl e \<Rightarrow> Inl e
         | Inr v \<Rightarrow> Inr (py_round v 2))"

definition calc_percentiles :: "real list \<Rightarrow> real \<Rightarrow> error + real" where
  "calc_percentiles samples pct =
     (if samples = [] then Inr 0
      else case primary_percentile samples pct of
             Inr v \<Rightarrow> Inr v
           | Inl _ \<Rightarrow> fallback_percentile samples pct)"

text \<open>
  The fallback as the specification words it: sort the samples in milliseconds and take
  the element at index \<open>\<lfloor>n\<cdot>p/100\<rfloor>\<close>. It is compared with the code below.
\<close>

definition spec_fallback_percentile :: "real list \<Rightarrow> real \<Rightarrow> error + real" where
  "spec_fallback_percentile samples pct =
     py_index (sorted_ms samples) \<lfloor>of_nat (length samples) * pct / 100\<rfloor>"

subsection \<open>\<^verbatim>\<open>_get_metrics_copy\<close>\<close>

record session_row =
  row_session_id :: string
  row_first_seen :: string
  row_last_seen :: string
  row_hit_count :: int
  row_last_path :: "string option"
  row_device_type :: string

definition session_row_of :: "session \<Rightarrow> session_row" where
  "session_row_of s =
     \<lparr>row_session_id = session_id s, row_first_seen = first_seen s,
      row_last_seen = last_seen s, row_hit_count = hit_count s,
      row_last_path = last_path s, row_device_type = device_type s\<rparr>"

record snapshot =
  snap_active_clients :: int
  snap_total_requests :: int
  snap_average_response_time :: real
  p95_ms :: real
  p99_ms :: real
  snap_recent_requests :: "request_entry list"
  snap_cache_enabled :: bool
  snap_cache_hits :: int
  snap_cache_misses :: int
  snap_unique_sessions :: int
  snap_thread_pool_size :: int
  snap_queue_size :: int
  snap_latency_trend :: "real list"
  snap_status_codes :: "string \<rightharpoonup> int"
  snap_geo :: "string \<rightharpoonup> int"
  session_summary :: "session_row list"

definition get_metrics_copy :: "world \<Rightarrow> error + snapshot" where
  "get_metrics_copy w =
     (let m = metrics w; samples = response_times m
      in case calc_percentiles samples 95 of
           Inl e \<Rightarrow> Inl e
         | Inr p95 \<Rightarrow>
             (case calc_percentiles samples 99 of
                Inl e \<Rightarrow> Inl e
              | Inr p99 \<Rightarrow>
                  Inr \<lparr>snap_active_clients = active_clients m,
                       snap_total_requests = total_requests m,
                       snap_average_response_time = py_round (average_response_time m) 4,
                       p95_ms = p95,
                       p99_ms = p99,
                       snap_recent_requests = take 20 (recent_requests m),
                       snap_cache_enabled = cache_enabled m,
                       snap_cache_hits = cache_hits m,
                       snap_cache_misses = cache_misses m,
                       snap_unique_sessions = int (length (session_data w)),
                       snap_thread_pool_size = thread_pool_size m,
                       snap_queue_size = queue_size m,
                       snap_latency_trend = last_n MAX_LAT (latency_trend m),
                       snap_status_codes = status_codes m,
                       snap_geo = geo m,
                       session_summary =
                         map session_row_of (take 20 (map snd (session_data w)))\<rparr>))"

subsection \<open>\<^verbatim>\<open>WebServer.handle_client\<close>\<close>

text \<open>
  What one call of \<^verbatim>\<open>handle_client\<close> reads from outside. \<open>recv\<close> is the decoded text
  of \<^verbatim>\<open>sock.recv(8192)\<close>, or the error it raises; \<open>send_ok\<close> says whether \<^verbatim>\<open>sendall\<close>
  returns or raises; \<open>elapsed\<close> is \<^verbatim>\<open>time.time() - start\<close> where the handler computes
  \<^verbatim>\<open>rt\<close> (the sleeps are part of it). An error of \<^verbatim>\<open>sock.close()\<close> is caught where it
  is raised and changes nothing.
\<close>

record client_env =
  recv :: "error + string"
  send_ok :: bool
  elapsed :: real
  ens :: ensure_env
  rcd :: record_env

text \<open>
  What the handler does to the socket and the logger, in order: a call of \<^verbatim>\<open>sendall\<close>
  with its bytes (whether it returns or raises), a call of \<^verbatim>\<open>logger.error\<close> with the
  exception caught, the call of \<^verbatim>\<open>close\<close>.
\<close>

datatype event = SendAll string | LogError error | Close

definition crlf :: string where
  "crlf = [CHR 0x0D, CHR 0x0A]"

definition bad_request :: string where
  "bad_request =
     ''HTTP/1.1 400 Bad Request'' @ crlf @ ''Content-Length:11'' @ crlf @ crlf @ ''Bad Request''"

fun parse_headers :: "string list \<Rightarrow> (string \<rightharpoonup> string) \<Rightarrow> (string \<rightharpoonup> string)" where
  "parse_headers [] h = h"
| "parse_headers (l # ls) h =
     parse_headers ls
       (if CHR '':'' \<in> set l
        then (case split_colon1 l of (k, v) \<Rightarrow> h(strip k \<mapsto> strip v))
        else h)"

definition response :: "string \<Rightarrow> int \<Rightarrow> string \<Rightarrow> string" where
  "response body status_code sid =
     (let cookie = ''Set-Cookie: SESSION_ID='' @ sid @ ''; Path=/; HttpOnly'' @ crlf;
          body_bytes = utf8 body;
          resp_headers =
            utf8 (''HTTP/1.1 '' @ str_int status_code @ '' ''
                  @ (if status_code = 200 then ''OK'' else [])
                  @ crlf
                  @ ''Content-Type: text/html'' @ crlf
                  @ cookie
                  @ ''Content-Length: '' @ str_nat (length body_bytes) @ crlf @ crlf)
      in resp_headers @ body_bytes)"

text \<open>\<^verbatim>\<open>lines[0] if lines else ""\<close>.\<close>

definition first_line :: "string list \<Rightarrow> string" where
  "first_line lines = (case lines of [] \<Rightarrow> [] | l # _ \<Rightarrow> l)"

text \<open>
  The body of the \<^verbatim>\<open>try\<close>: the world it leaves, the events, and the exception that
  leaves it, if any (\<^verbatim>\<open>recv\<close> raising, more than three tokens at the unpacking of
  \<^verbatim>\<open>parts\<close>, \<^verbatim>\<open>sendall\<close> raising on the answer).
\<close>

definition try_block ::
  "client_env \<Rightarrow> (string \<Rightarrow> fs_entry) \<Rightarrow> string \<Rightarrow> world \<Rightarrow> world \<times> event list \<times> error option"
where
  "try_block env fs addr w =
     (case recv env of
        Inl e \<Rightarrow> (w, [], Some e)
      | Inr req \<Rightarrow>
          if req = [] then (w, [], None)
          else
            (let lines = split_crlf req;
                 parts = split_ws (first_line lines)
             in if length parts < 3
                then (record_req (rcd env) addr ''/'' (elapsed env) 400 ''unknown'' w,
                      [SendAll bad_request], None)
                else
                  (case parts of
                     [method, path0, proto] \<Rightarrow>
                       (let path = (if path0 = ''/'' then ''/index.html'' else path0);
                            headers = parse_headers (tl lines) Map.empty;
                            (w1, body, status_code) = get_file fs path w;
                            (w2, sid) = ensure_session_for_ip (ens env) addr w1;
                            resp = response body status_code sid
                        in if send_ok env
                           then (record_req (rcd env) addr path (elapsed env) status_code
                                   (detect_device (case headers ''User-Agent'' of
                                                     None \<Rightarrow> [] | Some ua \<Rightarrow> ua)) w2,
                                 [SendAll resp], None)
                           else (w2, [SendAll resp], Some OSError))
                   | _ \<Rightarrow> (w, [], Some ValueError))))"

definition handle_client ::
  "client_env \<Rightarrow> (string \<Rightarrow> fs_entry) \<Rightarrow> string \<Rightarrow> world \<Rightarrow> world \<times> event list"
where
  "handle_client env fs addr w =
     (let w0 = w\<lparr>metrics := (metrics w)\<lparr>active_clients := active_clients (metrics w) + 1\<rparr>\<rparr>;
          (w1, evs, exc) = try_block env fs addr w0;
          logged = (case exc of None \<Rightarrow> [] | Some e \<Rightarrow> [LogError e])
      in (w1\<lparr>metrics := (metrics w1)\<lparr>active_clients := max 0 (active_clients (metrics w1) - 1)\<rparr>\<rparr>,
          evs @ logged @ [Close]))"

subsection \<open>Runs of \<^verbatim>\<open>record\<close>\<close>

text \<open>The arguments of one call of \<^verbatim>\<open>record\<close>, and what it reads from outside.\<close>

record record_call =
  rc_env :: record_env
  rc_ip :: string
  rc_path :: string
  rc_rt :: real
  rc_status :: int
  rc_device :: string

definition apply_call :: "record_call \<Rightarrow> world \<Rightarrow> world" where
  "apply_call c w =
     record_req (rc_env c) (rc_ip c) (rc_path c) (rc_rt c) (rc_status c) (rc_device c) w"

definition call_entry :: "record_call \<Rightarrow> request_entry" where
  "call_entry c = new_entry (rc_env c) (rc_ip c) (rc_path c) (rc_rt c) (rc_status c)"

text \<open>The calls of a list one after the other, the first call first.\<close>

fun run_records :: "record_call list \<Rightarrow> world \<Rightarrow> world" where
  "run_records [] w = w"
| "run_records (c # cs) w = run_records cs (apply_call c w)"

subsection \<open>Two handlers at once\<close>

text \<open>
  \<^verbatim>\<open>handle_client\<close> runs on the threads of the pool. \<^verbatim>\<open>record\<close> holds
  \<^verbatim>\<open>metrics_lock\<close> for all of its body, so it is one step. \<^verbatim>\<open>_ensure_session_for_ip\<close>
  tests \<^verbatim>\<open>ip in session_data\<close> and stores the new session without the lock, with calls
  of \<^verbatim>\<open>uuid4\<close> and \<^verbatim>\<open>now\<close> between the two, so another thread can run between its
  test and its store: they are two steps. A handler that serves a well-formed request
  is, as far as \<^verbatim>\<open>session_data\<close> goes, the test, the store when the test found
  nothing, and \<^verbatim>\<open>record\<close>.
\<close>

datatype pc = AtTest | AtStore | AtRecord | Finished

record handler =
  h_pc :: pc
  h_ens :: ensure_env
  h_call :: record_call

definition handler_step :: "handler \<Rightarrow> world \<Rightarrow> handler \<times> world" where
  "handler_step h w =
     (case h_pc h of
        AtTest \<Rightarrow>
          (if map_of (session_data w) (rc_ip (h_call h)) = None
           then (h\<lparr>h_pc := AtStore\<rparr>, w) else (h\<lparr>h_pc := AtRecord\<rparr>, w))
      | AtStore \<Rightarrow> (h\<lparr>h_pc := AtRecord\<rparr>, fst (ensure_create (h_ens h) (rc_ip (h_call h)) w))
      | AtRecord \<Rightarrow> (h\<lparr>h_pc := Finished\<rparr>, apply_call (h_call h) w)
      | Finished \<Rightarrow> (h, w))"

text \<open>
  A schedule says which of two handlers takes the next step: \<open>False\<close> the first,
  \<open>True\<close> the second.
\<close>

fun run_schedule :: "bool list \<Rightarrow> handler \<times> handler \<times> world \<Rightarrow> handler \<times> handler \<times> world" where
  "run_schedule [] c = c"
| "run_schedule (b # bs) (h1, h2, w) =
     (if b then (case handler_step h2 w of (h2', w') \<Rightarrow> run_schedule bs (h1, h2', w'))
      else (case handler_step h1 w of (h1', w') \<Rightarrow> run_schedule bs (h1', h2, w')))"

text \<open>Two requests for \<^verbatim>\<open>/index.html\<close> from the address \<^verbatim>\<open>10.0.0.1\<close>.\<close>

definition first_handler :: handler where
  "first_handler =
     \<lparr>h_pc = AtTest,
      h_ens = \<lparr>ens_uuid = ''aaaaaaaaaaaaaaaa'', ens_first = ''2024-01-01 00:00:00'',
               ens_last = ''2024-01-01 00:00:00''\<rparr>,
      h_call = \<lparr>rc_env = \<lparr>rec_uuid = ''cccccccccccccccc'', now_entry = ''2024-01-01 00:00:00'',
                           now_first = ''2024-01-01 00:00:00'', now_last = ''2024-01-01 00:00:00'',
                           now_seen = ''2024-01-01 00:00:00''\<rparr>,
                rc_ip = ''10.0.0.1'', rc_path = ''/index.html'', rc_rt = 1 / 8,
                rc_status = 200, rc_device = ''desktop''\<rparr>\<rparr>"

definition second_handler :: handler where
  "second_handler =
     first_handler\<lparr>h_ens := (h_ens first_handler)\<lparr>ens_uuid := ''bbbbbbbbbbbbbbbb''\<rparr>,
                   h_call := (h_call first_handler)
                     \<lparr>rc_env := (rc_env (h_call first_handler))\<lparr>rec_uuid := ''dddddddddddddddd''\<rparr>\<rparr>\<rparr>"

subsection \<open>Concrete inputs\<close>

text \<open>
  A client that sends \<^verbatim>\<open>GET /\<close> and nothing else (two tokens), one that sends a full
  request line for \<^verbatim>\<open>/a.html\<close>, a directory \<^verbatim>\<open>server/static\<close> that holds nothing, and
  one that holds the file \<^verbatim>\<open>a.html\<close> and the file \<^verbatim>\<open>b.html\<close>, which cannot be read.
\<close>

definition malformed_client :: client_env where
  "malformed_client =
     \<lparr>recv = Inr ''GET /'', send_ok = True, elapsed = 1 / 8,
      ens = h_ens first_handler, rcd = rc_env (h_call first_handler)\<rparr>"

definition good_client :: client_env where
  "good_client =
     malformed_client\<lparr>recv := Inr (''GET /a.html HTTP/1.1'' @ crlf @ ''User-Agent: iPad'' @ crlf @ crlf)\<rparr>"

definition no_files :: "string \<Rightarrow> fs_entry" where
  "no_files loc = Absent"

definition two_files :: "string \<Rightarrow> fs_entry" where
  "two_files loc =
     (if loc = ''server/static/a.html'' then Readable ''<p>a</p>''
      else if loc = ''server/static/b.html'' then Unreadable
      else if loc = ''server/static/'' then Directory
      else Absent)"

text \<open>The world after one request for \<^verbatim>\<open>/a.html\<close>, which is then in the cache.\<close>

definition cached_world :: world where
  "cached_world = fst (get_file two_files ''/a.html'' initial_world)"

text \<open>
  The first handler tests, the second tests, the first stores and records, then the
  second stores and records.
\<close>

definition racing_schedule :: "bool list" where
  "racing_schedule = [False, True, False, False, True, True]"

definition in_turn_schedule :: "bool list" where
  "in_turn_schedule = [False, False, False, True, True, True]"

text \<open>
  The index \<^verbatim>\<open>j\<close> that \<^verbatim>\<open>quantiles\<close> computes for its \<open>i\<close>-th cut point, on \<open>ld\<close> data points,
  and the cut point that exact arithmetic would give.
\<close>

definition cut_index :: "nat \<Rightarrow> nat \<Rightarrow> nat \<Rightarrow> nat" where
  "cut_index ld n i = (let j0 = i * (ld + 1) div n in if j0 < 1 then 1 else if ld - 1 < j0 then ld - 1 else j0)"

definition exact_cut :: "real list \<Rightarrow> nat \<Rightarrow> nat \<Rightarrow> real" where
  "exact_cut data n i =
     (let j = cut_index (length data) n i;
          delta = int (i * (length data + 1)) - int (j * n)
      in (data ! (j - 1) * of_int (int n - delta) + data ! j * of_int delta) / of_nat n)"

text \<open>
  The clock: from \<open>2\<^sup>3\<^sup>0\<close> to \<open>2\<^sup>3\<^sup>1\<close> seconds after the epoch, the years 2004 to 2038, the
  floats that \<^verbatim>\<open>time.time()\<close> can return are multiples of \<open>2\<^sup>-\<^sup>2\<^sup>2\<close>, and so is the
  difference of two of them, the response time that \<^verbatim>\<open>handle_client\<close> hands to
  \<^verbatim>\<open>record\<close>. \<open>on_grid\<close> holds of a multiple of \<open>2\<^sup>-\<^sup>2\<^sup>2\<close> of at most \<open>2\<^sup>2\<^sup>0\<close> seconds, twelve
  days.
\<close>

definition on_grid :: "real \<Rightarrow> bool" where
  "on_grid x = (of_int \<lfloor>x * 2 ^ 22\<rfloor> = x * 2 ^ 22 \<and> \<bar>x\<bar> \<le> 2 ^ 20)"

text \<open>
  The floats that Python writes \<^verbatim>\<open>0.1\<close> and \<^verbatim>\<open>0.010285\<close>, a call of \<^verbatim>\<open>record\<close> with the
  response time \<^verbatim>\<open>0.1\<close>, and the world after three such calls.
\<close>

definition float_0_1 :: real where
  "float_0_1 = 3602879701896397 / 2 ^ 55"

definition float_0_010285 :: real where
  "float_0_010285 = 5928898837440711 / 2 ^ 59"

definition tenth_call :: record_call where
  "tenth_call = (h_call first_handler)\<lparr>rc_rt := float_0_1\<rparr>"

definition three_tenths_world :: world where
  "three_tenths_world = run_records [tenth_call, tenth_call, tenth_call] initial_world"

section \<open>Properties\<close>

subsection \<open>Rounding\<close>

text \<open>Rounding never reverses an order.\<close>

lemma round_half_even_mono: "x \<le> y \<Longrightarrow> round_half_even x \<le> round_half_even y"
proof -
  assume xy: "x \<le> y"
  have floors: "\<lfloor>x\<rfloor> \<le> \<lfloor>y\<rfloor>" using xy by (rule floor_mono)
  show ?thesis
  proof (cases "\<lfloor>x\<rfloor> = \<lfloor>y\<rfloor>")
    case True
    with xy show ?thesis
      by (auto simp: round_half_even_def Let_def)
  next
    case False
    with floors have "\<lfloor>x\<rfloor> + 1 \<le> \<lfloor>y\<rfloor>" by simp
    moreover have "round_half_even x \<le> \<lfloor>x\<rfloor> + 1" by (simp add: round_half_even_def Let_def)
    moreover have "\<lfloor>y\<rfloor> \<le> round_half_even y" by (simp add: round_half_even_def Let_def)
    ultimately show ?thesis by linarith
  qed
qed

lemma py_round_mono: "x \<le> y \<Longrightarrow> py_round x d \<le> py_round y d"
proof -
  assume "x \<le> y"
  then have "x * 10 ^ d \<le> y * 10 ^ d" by simp
  then have "round_half_even (x * 10 ^ d) \<le> round_half_even (y * 10 ^ d)"
    by (rule round_half_even_mono)
  then show ?thesis by (simp add: py_round_def divide_right_mono)
qed

text \<open>
  The binade of a number and the rounding to binary64: \<open>fl\<close> is odd and monotone, it
  leaves every number with at most 53 significant bits as it is, and it is computed
  from the binade.
\<close>

lemma two_powr_int: "2 powr (of_int k) = (2::real) powi k"
  by (simp add: powr_int power_int_def field_simps)

lemma binade_iff:
  assumes "x \<noteq> 0"
  shows "binade x = k \<longleftrightarrow> 2 powi k \<le> \<bar>x\<bar> \<and> \<bar>x\<bar> < 2 powi (k + 1)"
proof -
  have "0 < \<bar>x\<bar>" using assms by simp
  then have "\<lfloor>log 2 \<bar>x\<bar>\<rfloor> = k \<longleftrightarrow> 2 powr (of_int k) \<le> \<bar>x\<bar> \<and> \<bar>x\<bar> < 2 powr (of_int (k + 1))"
    by (subst floor_log_eq_powr_iff) simp_all
  then show ?thesis by (simp only: binade_def two_powr_int)
qed


lemma round_half_even_of_int: "round_half_even (of_int n) = n"
  by (simp add: round_half_even_def)

lemma round_half_even_minus: "round_half_even (- y) = - round_half_even y"
proof (cases "y = of_int \<lfloor>y\<rfloor>")
  case True
  define n where "n = \<lfloor>y\<rfloor>"
  have yn: "y = of_int n" using True by (simp add: n_def)
  have "round_half_even (of_int (- n)) = - round_half_even (of_int n)"
    by (simp only: round_half_even_of_int)
  then show ?thesis by (simp add: yn)
next
  case False
  then have "of_int \<lfloor>y\<rfloor> \<noteq> y" by (simp only: eq_commute not_False_eq_True)
  moreover have "of_int \<lfloor>y\<rfloor> \<le> y" by (rule of_int_floor_le)
  ultimately have lt: "of_int \<lfloor>y\<rfloor> < y" by (simp only: less_le simp_thms)
  have "- y < of_int (- \<lfloor>y\<rfloor>)" using lt by simp
  moreover have "of_int (- \<lfloor>y\<rfloor> - 1) \<le> - y"
    using floor_correct [of y] by simp linarith
  ultimately have fm: "\<lfloor>- y\<rfloor> = - \<lfloor>y\<rfloor> - 1"
    by (intro floor_unique) simp_all
  have "even (- \<lfloor>y\<rfloor> - 1) \<longleftrightarrow> odd \<lfloor>y\<rfloor>" by simp
  then show ?thesis
    unfolding round_half_even_def Let_def fm
    by (auto simp: algebra_simps)
qed

lemma binade_bounds:
  assumes "x \<noteq> 0"
  shows "2 powi binade x \<le> \<bar>x\<bar>" and "\<bar>x\<bar> < 2 powi (binade x + 1)"
  using binade_iff [OF assms, of "binade x"] by simp_all

lemma two_powi_less_cancel: "(2::real) powi a < 2 powi b \<Longrightarrow> a < b"
proof (rule ccontr)
  assume "(2::real) powi a < 2 powi b" and "\<not> a < b"
  then have "b \<le> a" by simp
  then have "(2::real) powi b \<le> 2 powi a" by (intro power_int_increasing) simp_all
  with \<open>(2::real) powi a < 2 powi b\<close> show False by simp
qed

lemma binade_mono:
  assumes "0 < x" and "x \<le> y"
  shows "binade x \<le> binade y"
proof -
  have "log 2 x \<le> log 2 y" using assms by simp
  then show ?thesis using assms by (simp add: binade_def floor_mono)
qed

lemma fl_exp_mono: "0 < x \<Longrightarrow> x \<le> y \<Longrightarrow> fl_exp x \<le> fl_exp y"
  using binade_mono [of x y] by (simp add: fl_exp_def)

lemma fl_exp_upper:
  assumes "x \<noteq> 0"
  shows "\<bar>x\<bar> < 2 powi (fl_exp x + 53)"
proof -
  have "binade x + 1 \<le> fl_exp x + 53" by (simp add: fl_exp_def)
  then have "(2::real) powi (binade x + 1) \<le> 2 powi (fl_exp x + 53)"
    by (intro power_int_increasing) simp_all
  with binade_bounds(2) [OF assms] show ?thesis by simp
qed

lemma fl_exp_lower:
  assumes "x \<noteq> 0" and "- 1074 < fl_exp x"
  shows "2 powi (fl_exp x + 52) \<le> \<bar>x\<bar>"
proof -
  have "fl_exp x = binade x - 52" using assms(2) by (simp add: fl_exp_def max_def split: if_splits)
  then have "fl_exp x + 52 = binade x" by simp
  with binade_bounds(1) [OF assms(1)] show ?thesis by simp
qed

lemma scale_powi: "(2::real) powi (e + int n) / 2 powi e = 2 ^ n"
  by (simp add: power_int_add)

lemma fl_pos_le_top:
  assumes "0 < x"
  shows "fl x \<le> 2 powi (fl_exp x + 53)"
proof -
  let ?P = "(2::real) powi fl_exp x"
  have P: "0 < ?P" by simp
  have "x < 2 powi (fl_exp x + 53)" using fl_exp_upper [of x] assms by simp
  then have "x / ?P \<le> 2 powi (fl_exp x + 53) / ?P"
    using P by (intro divide_right_mono) simp_all
  also have "\<dots> = of_int (2 ^ 53)" using scale_powi [of "fl_exp x" 53] by simp
  finally have "round_half_even (x / ?P) \<le> round_half_even (of_int (2 ^ 53))"
    by (rule round_half_even_mono)
  then have "round_half_even (x / ?P) \<le> 2 ^ 53" by (simp only: round_half_even_of_int)
  then have "(of_int (round_half_even (x / ?P)) :: real) \<le> of_int (2 ^ 53)"
    by (simp only: of_int_le_iff)
  then have "of_int (round_half_even (x / ?P)) * ?P \<le> of_int (2 ^ 53) * ?P"
    using P by (intro mult_right_mono) simp_all
  also have "\<dots> = 2 powi (fl_exp x + 53)" by (simp add: power_int_add)
  finally show ?thesis using assms by (simp add: fl_def)
qed

lemma fl_pos_ge_bottom:
  assumes "0 < x" and "- 1074 < fl_exp x"
  shows "2 powi (fl_exp x + 52) \<le> fl x"
proof -
  let ?P = "(2::real) powi fl_exp x"
  have P: "0 < ?P" by simp
  have "2 powi (fl_exp x + 52) \<le> x" using fl_exp_lower [of x] assms by simp
  then have "2 powi (fl_exp x + 52) / ?P \<le> x / ?P"
    using P by (intro divide_right_mono) simp_all
  moreover have "2 powi (fl_exp x + 52) / ?P = of_int (2 ^ 52)"
    using scale_powi [of "fl_exp x" 52] by simp
  ultimately have "of_int (2 ^ 52) \<le> x / ?P" by simp
  then have "round_half_even (of_int (2 ^ 52)) \<le> round_half_even (x / ?P)"
    by (rule round_half_even_mono)
  then have "2 ^ 52 \<le> round_half_even (x / ?P)" by (simp only: round_half_even_of_int)
  then have "(of_int (2 ^ 52) :: real) \<le> of_int (round_half_even (x / ?P))"
    by (simp only: of_int_le_iff)
  then have "of_int (2 ^ 52) * ?P \<le> of_int (round_half_even (x / ?P)) * ?P"
    using P by (intro mult_right_mono) simp_all
  moreover have "of_int (2 ^ 52) * ?P = 2 powi (fl_exp x + 52)" by (simp add: power_int_add)
  moreover have "fl x = of_int (round_half_even (x / ?P)) * ?P" using assms by (simp add: fl_def)
  ultimately show ?thesis by (simp only:)
qed

lemma fl_mono_pos:
  assumes "0 < x" and "x \<le> y"
  shows "fl x \<le> fl y"
proof (cases "fl_exp x = fl_exp y")
  case True
  let ?P = "(2::real) powi fl_exp y"
  have P: "0 < ?P" by simp
  have "x / ?P \<le> y / ?P" using assms P by (intro divide_right_mono) simp_all
  then have "round_half_even (x / ?P) \<le> round_half_even (y / ?P)"
    by (rule round_half_even_mono)
  then have "(of_int (round_half_even (x / ?P)) :: real) \<le> of_int (round_half_even (y / ?P))"
    by (simp only: of_int_le_iff)
  then have "of_int (round_half_even (x / ?P)) * ?P \<le> of_int (round_half_even (y / ?P)) * ?P"
    using P by (intro mult_right_mono) simp_all
  then show ?thesis using assms True by (simp add: fl_def)
next
  case False
  with fl_exp_mono [OF assms] have lt: "fl_exp x < fl_exp y" by simp
  have "- 1074 \<le> fl_exp x" by (simp add: fl_exp_def)
  with lt have "- 1074 < fl_exp y" by simp
  moreover have "0 < y" using assms by simp
  ultimately have low: "2 powi (fl_exp y + 52) \<le> fl y" by (intro fl_pos_ge_bottom)
  have "fl x \<le> 2 powi (fl_exp x + 53)" using assms(1) by (rule fl_pos_le_top)
  also have "\<dots> \<le> 2 powi (fl_exp y + 52)"
    using lt by (intro power_int_increasing) simp_all
  finally show ?thesis using low by simp
qed

lemma binade_minus: "binade (- x) = binade x"
  by (simp add: binade_def)

lemma fl_minus: "fl (- x) = - fl x"
  by (simp add: fl_def fl_exp_def binade_minus round_half_even_minus)

lemma fl_zero: "fl 0 = 0"
  by (simp add: fl_def)

lemma fl_nonneg: "0 \<le> x \<Longrightarrow> 0 \<le> fl x"
proof -
  assume "0 \<le> x"
  then have "0 \<le> x / 2 powi fl_exp x" by simp
  then have "round_half_even (of_int 0) \<le> round_half_even (x / 2 powi fl_exp x)"
    by (intro round_half_even_mono) simp
  then have "0 \<le> round_half_even (x / 2 powi fl_exp x)" by (simp only: round_half_even_of_int)
  then show ?thesis by (simp add: fl_def)
qed

lemma fl_mono: "x \<le> y \<Longrightarrow> fl x \<le> fl y"
proof -
  assume xy: "x \<le> y"
  consider "0 < x" | "y < 0" | "x \<le> 0" and "0 \<le> y" by linarith
  then show ?thesis
  proof cases
    case 1
    then show ?thesis using xy by (rule fl_mono_pos)
  next
    case 2
    then have "0 < - y" and "- y \<le> - x" using xy by simp_all
    then have "fl (- y) \<le> fl (- x)" by (rule fl_mono_pos)
    then show ?thesis by (simp add: fl_minus)
  next
    case 3
    then have "0 \<le> fl (- x)" and "0 \<le> fl y" by (simp_all add: fl_nonneg)
    then show ?thesis by (simp add: fl_minus)
  qed
qed

lemma fl_fix:
  assumes x: "x = of_int m * 2 powi e" and m: "\<bar>m\<bar> < 2 ^ 53" and e: "- 1074 \<le> e"
  shows "fl x = x"
proof (cases "x = 0")
  case True
  then show ?thesis by (simp add: fl_def)
next
  case False
  define E where "E = fl_exp x"
  have "\<bar>x\<bar> = of_int \<bar>m\<bar> * 2 powi e" by (simp add: x abs_mult)
  also have "\<dots> < of_int (2 ^ 53) * 2 powi e"
    using m by (intro mult_strict_right_mono) (simp_all only: of_int_less_iff zero_less_power_int zero_less_numeral)
  also have "\<dots> = 2 powi (e + 53)" by (simp add: power_int_add)
  finally have "\<bar>x\<bar> < 2 powi (e + 53)" .
  with binade_bounds(1) [OF False] have "(2::real) powi binade x < 2 powi (e + 53)" by simp
  then have "binade x < e + 53" by (rule two_powi_less_cancel)
  with e have le: "E \<le> e" by (simp add: E_def fl_exp_def)
  define n where "n = nat (e - E)"
  have en: "e = E + int n" using le by (simp add: n_def)
  have "x / 2 powi E = of_int m * (2 powi (E + int n) / 2 powi E)"
    unfolding x en by simp
  also have "\<dots> = of_int m * 2 ^ n" by (simp only: scale_powi)
  also have "\<dots> = of_int (m * 2 ^ n)" by simp
  finally have sc: "x / 2 powi E = of_int (m * 2 ^ n)" .
  have "of_int (round_half_even (x / 2 powi E)) * 2 powi E = (x / 2 powi E) * 2 powi E"
    by (simp only: sc round_half_even_of_int)
  also have "\<dots> = x" by simp
  finally have "of_int (round_half_even (x / 2 powi E)) * 2 powi E = x" .
  moreover have "fl x = of_int (round_half_even (x / 2 powi E)) * 2 powi E"
    using False by (simp add: fl_def E_def)
  ultimately show ?thesis by (simp only:)
qed

lemma fl_eval:
  assumes "2 powi k \<le> \<bar>x\<bar>" and "\<bar>x\<bar> < 2 powi (k + 1)" and "- 1022 \<le> k"
  shows "fl x = of_int (round_half_even (x / 2 powi (k - 52))) * 2 powi (k - 52)"
proof -
  have "0 < (2::real) powi k" by simp
  with assms(1) have "0 < \<bar>x\<bar>" by linarith
  then have nz: "x \<noteq> 0" by simp
  then have "binade x = k" using assms(1,2) by (simp add: binade_iff)
  then have "fl_exp x = k - 52" using assms(3) by (simp add: fl_exp_def)
  then show ?thesis using nz by (simp add: fl_def)
qed



subsection \<open>The windows that \<^verbatim>\<open>record\<close> keeps\<close>

lemma record_req_recent:
  "recent_requests (metrics (record_req env a p rt sc d w)) =
     take MAX_RECENT (new_entry env a p rt sc # recent_requests (metrics w))"
  by (simp add: record_req_def Let_def)

lemma record_req_response_times:
  "response_times (metrics (record_req env a p rt sc d w)) =
     last_n 2000 (response_times (metrics w) @ [rt])"
  by (simp add: record_req_def Let_def)

lemma record_req_average:
  "average_response_time (metrics (record_req env a p rt sc d w)) =
     (let ts = last_n 2000 (response_times (metrics w) @ [rt])
      in if ts = [] then 0 else fl (float_sum ts / of_nat (length ts)))"
  by (simp add: record_req_def Let_def)

lemma take_append_take: "take n (xs @ take n ys) = take n (xs @ ys)"
  by (simp add: min_def)

text \<open>
  After any run of calls the log is the entries of the calls, the last call first, cut
  to \<open>MAX_RECENT\<close>: induction on the calls, from any log within the bound.
\<close>

lemma run_records_recent:
  "length (recent_requests (metrics w)) \<le> MAX_RECENT \<Longrightarrow>
   recent_requests (metrics (run_records cs w)) =
     take MAX_RECENT (rev (map call_entry cs) @ recent_requests (metrics w))"
proof (induction cs arbitrary: w)
  case Nil
  then show ?case by simp
next
  case (Cons c cs)
  have step: "recent_requests (metrics (apply_call c w)) =
                take MAX_RECENT (call_entry c # recent_requests (metrics w))"
    by (simp add: apply_call_def call_entry_def record_req_recent)
  then have len: "length (recent_requests (metrics (apply_call c w))) \<le> MAX_RECENT"
    by simp
  have "recent_requests (metrics (run_records (c # cs) w)) =
          take MAX_RECENT (rev (map call_entry cs) @ recent_requests (metrics (apply_call c w)))"
    using Cons.IH [OF len] by simp
  also have "\<dots> = take MAX_RECENT (rev (map call_entry cs)
                        @ take MAX_RECENT (call_entry c # recent_requests (metrics w)))"
    by (simp only: step)
  also have "\<dots> = take MAX_RECENT (rev (map call_entry cs) @ call_entry c # recent_requests (metrics w))"
    by (simp add: take_append_take)
  finally show ?case by simp
qed

text \<open>
  Claim C4. After every call of \<^verbatim>\<open>record\<close> the recent-request log is the new entry
  followed by the old log, cut to 100 entries, so it never holds more than 100; and
  after any number of calls from the start of the server it is the entries of the calls
  from the newest back, cut to 100.
\<close>

theorem recent_requests_bounded_newest_first:
  "recent_requests (metrics (record_req env a p rt sc d w)) =
     take 100 (new_entry env a p rt sc # recent_requests (metrics w))
   \<and> length (recent_requests (metrics (record_req env a p rt sc d w))) \<le> 100
   \<and> recent_requests (metrics (run_records cs initial_world)) =
        take 100 (rev (map call_entry cs))
   \<and> length (recent_requests (metrics (run_records cs initial_world))) \<le> 100"
proof -
  have "length (recent_requests (metrics initial_world)) \<le> MAX_RECENT"
    by (simp add: initial_world_def initial_metrics_def)
  from run_records_recent [OF this, of cs]
  have "recent_requests (metrics (run_records cs initial_world)) = take 100 (rev (map call_entry cs))"
    by (simp add: initial_world_def initial_metrics_def MAX_RECENT_def)
  then show ?thesis
    by (simp add: record_req_recent MAX_RECENT_def)
qed

lemma sum_list_le_length_times:
  fixes xs :: "real list"
  shows "\<forall>x\<in>set xs. x \<le> M \<Longrightarrow> sum_list xs \<le> of_nat (length xs) * M"
proof (induction xs)
  case Nil
  then show ?case by simp
next
  case (Cons a xs)
  then have "a \<le> M" and "sum_list xs \<le> of_nat (length xs) * M" by simp_all
  then show ?case by (simp add: algebra_simps)
qed

lemma sum_list_ge_length_times:
  fixes xs :: "real list"
  shows "\<forall>x\<in>set xs. M \<le> x \<Longrightarrow> of_nat (length xs) * M \<le> sum_list xs"
proof (induction xs)
  case Nil
  then show ?case by simp
next
  case (Cons a xs)
  then have "M \<le> a" and "of_nat (length xs) * M \<le> sum_list xs" by simp_all
  then show ?case by (simp add: algebra_simps)
qed

lemma mean_between_Min_Max:
  fixes xs :: "real list"
  assumes "xs \<noteq> []"
  shows "Min (set xs) \<le> sum_list xs / of_nat (length xs)"
    and "sum_list xs / of_nat (length xs) \<le> Max (set xs)"
proof -
  have pos: "0 < (of_nat (length xs) :: real)" using assms by simp
  have "of_nat (length xs) * Min (set xs) \<le> sum_list xs"
    by (rule sum_list_ge_length_times) simp
  then show "Min (set xs) \<le> sum_list xs / of_nat (length xs)"
    using pos by (simp add: pos_le_divide_eq mult.commute)
  have "sum_list xs \<le> of_nat (length xs) * Max (set xs)"
    by (rule sum_list_le_length_times) simp
  then show "sum_list xs / of_nat (length xs) \<le> Max (set xs)"
    using pos by (simp add: pos_divide_le_eq mult.commute)
qed

lemma last_n_snoc_nonempty: "0 < k \<Longrightarrow> last_n k (xs @ [x]) \<noteq> []"
  by (simp add: last_n_def)

lemma length_last_n: "length (last_n k xs) \<le> k"
  by (simp add: last_n_def)

text \<open>
  Sums on the grid are exact: a multiple of \<open>2\<^sup>-\<^sup>2\<^sup>2\<close> below \<open>2\<^sup>3\<^sup>1\<close> has at most 53
  significant bits, and 2000 samples of at most \<open>2\<^sup>2\<^sup>0\<close> stay below \<open>2\<^sup>3\<^sup>1\<close>.
\<close>

lemma on_grid_Ints: "on_grid x \<Longrightarrow> x * 2 ^ 22 \<in> \<int>"
  by (metis Ints_of_int on_grid_def)

lemma on_grid_abs: "on_grid x \<Longrightarrow> \<bar>x\<bar> \<le> 2 ^ 20"
  by (simp add: on_grid_def)

lemma fl_multiple:
  assumes "x * 2 ^ 22 \<in> \<int>" and "\<bar>x\<bar> < 2 ^ 31"
  shows "fl x = x"
proof -
  from assms(1) obtain k where k: "x * 2 ^ 22 = of_int k" by (rule Ints_cases)
  then have "x = of_int k / 2 ^ 22" by (simp add: field_simps)
  then have x: "x = of_int k * 2 powi (- 22)" by (simp add: power_int_minus field_simps)
  have "\<bar>of_int k :: real\<bar> = \<bar>x * 2 ^ 22\<bar>" by (simp only: k)
  also have "\<dots> = \<bar>x\<bar> * 2 ^ 22" by (simp add: abs_mult)
  also have "\<dots> < 2 ^ 31 * 2 ^ 22" using assms(2) by (intro mult_strict_right_mono) simp_all
  finally have "\<bar>of_int k :: real\<bar> < of_int (2 ^ 53)" by simp
  then have "(of_int \<bar>k\<bar> :: real) < of_int (2 ^ 53)" by simp
  then have "\<bar>k\<bar> < 2 ^ 53" by (simp only: of_int_less_iff)
  then show ?thesis using x by (intro fl_fix [where m = k and e = "- 22"]) simp_all
qed

lemma fl_on_grid: "on_grid x \<Longrightarrow> fl x = x"
  by (intro fl_multiple on_grid_Ints) (simp_all add: on_grid_def)

text \<open>
  The difference of two readings of the clock is computed without rounding, and it is on
  the grid when it is at most \<open>2\<^sup>2\<^sup>0\<close> seconds.
\<close>

lemma clock_difference_on_grid:
  assumes "t0 * 2 ^ 22 \<in> \<int>" and "t1 * 2 ^ 22 \<in> \<int>"
    and "2 ^ 30 \<le> t0" and "t0 \<le> t1" and "t1 < 2 ^ 31" and "t1 - t0 \<le> 2 ^ 20"
  shows "fl (t1 - t0) = t1 - t0" and "on_grid (t1 - t0)"
proof -
  have "(t1 - t0) * 2 ^ 22 = t1 * 2 ^ 22 - t0 * 2 ^ 22" by (simp add: algebra_simps)
  then have i: "(t1 - t0) * 2 ^ 22 \<in> \<int>" using assms(1,2) by (simp only: Ints_diff)
  have "\<bar>t1 - t0\<bar> < 2 ^ 31" using assms(3-5) by simp
  with i show "fl (t1 - t0) = t1 - t0" by (rule fl_multiple)
  from i obtain k where "(t1 - t0) * 2 ^ 22 = of_int k" by (rule Ints_cases)
  then have "of_int \<lfloor>(t1 - t0) * 2 ^ 22\<rfloor> = (t1 - t0) * 2 ^ 22" by simp
  moreover have "\<bar>t1 - t0\<bar> \<le> 2 ^ 20" using assms(4,6) by simp
  ultimately show "on_grid (t1 - t0)" by (simp only: on_grid_def simp_thms)
qed

lemma foldl_fl_exact:
  assumes "acc * 2 ^ 22 \<in> \<int>" and "\<bar>acc\<bar> \<le> of_nat c * 2 ^ 20"
    and "\<forall>x\<in>set xs. on_grid x" and "c + length xs \<le> 2000"
  shows "foldl (\<lambda>acc x. fl (acc + x)) acc xs = acc + sum_list xs"
  using assms
proof (induction xs arbitrary: acc c)
  case Nil
  then show ?case by simp
next
  case (Cons x xs)
  have gx: "on_grid x" using Cons.prems(3) by simp
  have "(acc + x) * 2 ^ 22 = acc * 2 ^ 22 + x * 2 ^ 22" by (simp add: algebra_simps)
  then have ints: "(acc + x) * 2 ^ 22 \<in> \<int>"
    using Cons.prems(1) on_grid_Ints [OF gx] by (simp only: Ints_add)
  have "\<bar>acc + x\<bar> \<le> \<bar>acc\<bar> + \<bar>x\<bar>" by (rule abs_triangle_ineq)
  also have "\<dots> \<le> of_nat c * 2 ^ 20 + 2 ^ 20"
    using Cons.prems(2) on_grid_abs [OF gx] by (intro add_mono)
  also have "\<dots> = of_nat (Suc c) * 2 ^ 20" by (simp add: algebra_simps)
  finally have bound: "\<bar>acc + x\<bar> \<le> of_nat (Suc c) * 2 ^ 20" .
  have "Suc c \<le> 2000" using Cons.prems(4) by simp
  then have "(of_nat (Suc c) :: real) \<le> of_nat 2000" by (simp only: of_nat_le_iff)
  then have "(of_nat (Suc c) :: real) \<le> 2000" by simp
  then have "(of_nat (Suc c) :: real) * 2 ^ 20 \<le> 2000 * 2 ^ 20"
    by (intro mult_right_mono) simp_all
  with bound have "\<bar>acc + x\<bar> < 2 ^ 31" by simp
  with ints have exact: "fl (acc + x) = acc + x" by (rule fl_multiple)
  have "foldl (\<lambda>acc x. fl (acc + x)) (acc + x) xs = (acc + x) + sum_list xs"
    using Cons.prems(3,4) by (intro Cons.IH [OF ints bound]) simp_all
  then show ?case by (simp add: exact)
qed

lemma float_sum_exact:
  assumes "\<forall>x\<in>set xs. on_grid x" and "length xs \<le> 2000"
  shows "float_sum xs = sum_list xs"
  using foldl_fl_exact [of 0 0 xs] assms by (simp add: float_sum_def)

text \<open>
  Claim C5, as the code has it. After every call of \<^verbatim>\<open>record\<close> the response-time window
  is the last 2000 of the old samples and the new one, so it holds at most 2000 samples
  and is not empty, and the average stored with it is the float quotient of the float
  sum of the window by its length. When the samples of the window are multiples of
  \<open>2\<^sup>-\<^sup>2\<^sup>2\<close> of at most \<open>2\<^sup>2\<^sup>0\<close> seconds, as the response times that the handler measures
  are, the sum is exact, the average is the mean of the window rounded to a float, and
  it lies between the least and the greatest sample of the window.
\<close>

theorem response_window_bounded_average_rounded:
  "(let m' = metrics (record_req env a p rt sc d w); win = response_times m'
    in win = last_n 2000 (response_times (metrics w) @ [rt])
       \<and> length win \<le> 2000
       \<and> win \<noteq> []
       \<and> average_response_time m' = fl (float_sum win / of_nat (length win))
       \<and> ((\<forall>x\<in>set win. on_grid x) \<longrightarrow>
            average_response_time m' = fl (sum_list win / of_nat (length win))
            \<and> Min (set win) \<le> average_response_time m'
            \<and> average_response_time m' \<le> Max (set win)))"
proof -
  let ?ts = "last_n 2000 (response_times (metrics w) @ [rt])"
  have ts: "response_times (metrics (record_req env a p rt sc d w)) = ?ts"
    by (simp add: record_req_response_times)
  have ne: "?ts \<noteq> []" by (rule last_n_snoc_nonempty) simp
  have len: "length ?ts \<le> 2000" by (rule length_last_n)
  have avg: "average_response_time (metrics (record_req env a p rt sc d w)) =
               fl (float_sum ?ts / of_nat (length ?ts))"
    using ne by (simp add: record_req_average Let_def)
  have grid: "fl (float_sum ?ts / of_nat (length ?ts)) = fl (sum_list ?ts / of_nat (length ?ts))
      \<and> Min (set ?ts) \<le> fl (float_sum ?ts / of_nat (length ?ts))
      \<and> fl (float_sum ?ts / of_nat (length ?ts)) \<le> Max (set ?ts)"
    if g: "\<forall>x\<in>set ?ts. on_grid x"
  proof -
    have exact: "float_sum ?ts = sum_list ?ts" using g len by (rule float_sum_exact)
    have "Min (set ?ts) \<in> set ?ts" and "Max (set ?ts) \<in> set ?ts"
      using ne by (simp_all only: Min_in Max_in List.finite_set set_empty not_False_eq_True)
    then have fixed: "fl (Min (set ?ts)) = Min (set ?ts)" "fl (Max (set ?ts)) = Max (set ?ts)"
      using g by (simp_all add: fl_on_grid)
    have "fl (Min (set ?ts)) \<le> fl (sum_list ?ts / of_nat (length ?ts))"
      by (intro fl_mono mean_between_Min_Max(1) [OF ne])
    moreover have "fl (sum_list ?ts / of_nat (length ?ts)) \<le> fl (Max (set ?ts))"
      by (intro fl_mono mean_between_Min_Max(2) [OF ne])
    ultimately show ?thesis by (simp add: exact fixed)
  qed
  from grid have "(\<forall>x\<in>set ?ts. on_grid x) \<longrightarrow>
      fl (float_sum ?ts / of_nat (length ?ts)) = fl (sum_list ?ts / of_nat (length ?ts))
      \<and> Min (set ?ts) \<le> fl (float_sum ?ts / of_nat (length ?ts))
      \<and> fl (float_sum ?ts / of_nat (length ?ts)) \<le> Max (set ?ts)"
    by blast
  with ne len show ?thesis
    unfolding Let_def ts avg by blast
qed

text \<open>A first request with the response time 1/8 s.\<close>

theorem response_window_bounded_average_rounded_witness:
  "on_grid (1 / 8)
   \<and> response_times (metrics (apply_call (h_call first_handler) initial_world)) = [1 / 8]
   \<and> average_response_time (metrics (apply_call (h_call first_handler) initial_world)) = 1 / 8"
proof -
  let ?c = "h_call first_handler"
  let ?w = "record_req (rc_env ?c) (rc_ip ?c) (rc_path ?c) (rc_rt ?c) (rc_status ?c)
              (rc_device ?c) initial_world"
  have g: "on_grid (1 / 8)" by (simp add: on_grid_def)
  have win: "response_times (metrics ?w) = [1 / 8]"
    by (simp add: record_req_response_times first_handler_def initial_world_def
        initial_metrics_def last_n_def)
  from response_window_bounded_average_rounded
    [of "rc_env ?c" "rc_ip ?c" "rc_path ?c" "rc_rt ?c" "rc_status ?c" "rc_device ?c" initial_world]
  have "(\<forall>x\<in>set (response_times (metrics ?w)). on_grid x) \<longrightarrow>
          Min (set (response_times (metrics ?w))) \<le> average_response_time (metrics ?w)
          \<and> average_response_time (metrics ?w) \<le> Max (set (response_times (metrics ?w)))"
    unfolding Let_def by blast
  with g have "1 / 8 \<le> average_response_time (metrics ?w)
      \<and> average_response_time (metrics ?w) \<le> 1 / 8"
    by (simp add: win)
  then have "average_response_time (metrics ?w) = 1 / 8" by linarith
  with g win show ?thesis by (simp add: apply_call_def)
qed

text \<open>The float additions and the division behind the mean of three samples \<^verbatim>\<open>0.1\<close>.\<close>

lemma float_sum_three_tenths:
  "float_sum [float_0_1, float_0_1, float_0_1] = 1351079888211149 / 2 ^ 52"
proof -
  have a: "fl (3602879701896397 / 2 ^ 55) = 3602879701896397 / 2 ^ 55"
    by (subst fl_eval [where k = "- 4"]) (simp_all add: round_half_even_def Let_def)
  have b: "fl (3602879701896397 / 2 ^ 55 + 3602879701896397 / 2 ^ 55) = 3602879701896397 / 2 ^ 54"
    by (subst fl_eval [where k = "- 3"]) (simp_all add: round_half_even_def Let_def)
  have c: "fl (3602879701896397 / 2 ^ 54 + 3602879701896397 / 2 ^ 55) = 1351079888211149 / 2 ^ 52"
    by (subst fl_eval [where k = "- 2"]) (simp_all add: round_half_even_def Let_def)
  show ?thesis
    unfolding float_sum_def float_0_1_def by (simp only: foldl.simps add_0 a b c)
qed

lemma float_mean_three_tenths:
  "fl (1351079888211149 / 2 ^ 52 / 3) = 7205759403792795 / 2 ^ 56"
  by (subst fl_eval [where k = "- 4"]) (simp_all add: round_half_even_def Let_def)

text \<open>
  Claim C5, as it is stated, fails. After three calls of \<^verbatim>\<open>record\<close> with the response
  time \<^verbatim>\<open>0.1\<close> the window holds that float three times and the stored average is
  \<^verbatim>\<open>0.10000000000000002\<close>, the next float above it: the sum of the three is rounded up,
  and so is its third.
\<close>

theorem average_above_window_counterexample:
  "response_times (metrics three_tenths_world) = [float_0_1, float_0_1, float_0_1]
   \<and> average_response_time (metrics three_tenths_world) = 7205759403792795 / 2 ^ 56
   \<and> Max (set (response_times (metrics three_tenths_world))) = 7205759403792794 / 2 ^ 56
   \<and> Max (set (response_times (metrics three_tenths_world)))
       < average_response_time (metrics three_tenths_world)"
proof -
  have win: "response_times (metrics three_tenths_world) = [float_0_1, float_0_1, float_0_1]"
    by (simp add: three_tenths_world_def apply_call_def record_req_response_times tenth_call_def
        initial_world_def initial_metrics_def last_n_def)
  have "average_response_time (metrics three_tenths_world) =
          fl (float_sum [float_0_1, float_0_1, float_0_1] / 3)"
    by (simp add: three_tenths_world_def apply_call_def record_req_average
        record_req_response_times tenth_call_def initial_world_def initial_metrics_def
        last_n_def Let_def)
  then have avg: "average_response_time (metrics three_tenths_world) = 7205759403792795 / 2 ^ 56"
    by (simp only: float_sum_three_tenths float_mean_three_tenths)
  have mx: "Max (set (response_times (metrics three_tenths_world))) = 7205759403792794 / 2 ^ 56"
    by (simp add: win float_0_1_def)
  show ?thesis by (simp add: win avg mx float_0_1_def)
qed

subsection \<open>The handler: malformed request lines and the active-client counter\<close>

lemma str_int_400: "str_int 400 = ''400''"
  by (simp add: str_int_def str_nat.simps digit_char_def)

lemma bump_same: "bump d k k = Some ((case d k of None \<Rightarrow> 0 | Some n \<Rightarrow> n) + 1)"
  by (simp add: bump_def Let_def split: option.split)

lemma bump_other: "k' \<noteq> k \<Longrightarrow> bump d k k' = d k'"
  by (simp add: bump_def Let_def)

lemma record_req_status_codes:
  "status_codes (metrics (record_req env a p rt sc d w)) = bump (status_codes (metrics w)) (str_int sc)"
  by (simp add: record_req_def Let_def)

lemma record_req_session_data:
  "session_data (record_req env a p rt sc d w) = record_session env a p d (session_data w)"
  by (simp add: record_req_def Let_def)

lemma record_req_active:
  "active_clients (metrics (record_req env a p rt sc d w)) = active_clients (metrics w)"
  by (simp add: record_req_def Let_def)

text \<open>
  After the session book-keeping of \<^verbatim>\<open>record\<close> the address has a session: it carries
  the device and the path of this call, and one hit more than before.
\<close>

lemma record_session_lookup:
  "\<exists>s. map_of (record_session env a p d sd) a = Some s \<and> device_type s = d \<and> last_path s = Some p
       \<and> hit_count s = (case map_of sd a of None \<Rightarrow> 0 | Some s0 \<Rightarrow> hit_count s0) + 1"
  by (simp add: record_session_def Let_def update_conv' split: option.split)

lemma try_block_malformed:
  assumes "recv env = Inr req" and "req \<noteq> []"
    and "length (split_ws (first_line (split_crlf req))) < 3"
  shows "try_block env fs a w =
           (record_req (rcd env) a ''/'' (elapsed env) 400 ''unknown'' w, [SendAll bad_request], None)"
  using assms by (simp add: try_block_def Let_def)

text \<open>
  Claim C1. When the handler has received a text that is not empty and whose request
  line splits into fewer than three tokens, it calls \<^verbatim>\<open>sendall\<close> once, with the fixed 400
  answer, and closes the socket; it records the request with status 400 and the device
  \<^verbatim>\<open>unknown\<close>: the histogram entry of \<^verbatim>\<open>"400"\<close> is one more than before (counted from 0
  when it was absent), no other entry changes, the new log entry is at the front, and
  the session of the address carries the device \<^verbatim>\<open>unknown\<close>.
\<close>

theorem malformed_request_answered_400:
  assumes "recv env = Inr req" and "req \<noteq> []"
    and "length (split_ws (first_line (split_crlf req))) < 3"
  shows "(let w' = fst (handle_client env fs a w)
          in snd (handle_client env fs a w) = [SendAll bad_request, Close]
             \<and> status_codes (metrics w') ''400'' =
                 Some ((case status_codes (metrics w) ''400'' of None \<Rightarrow> 0 | Some n \<Rightarrow> n) + 1)
             \<and> (\<forall>k. k \<noteq> ''400'' \<longrightarrow> status_codes (metrics w') k = status_codes (metrics w) k)
             \<and> recent_requests (metrics w') =
                 take 100 (new_entry (rcd env) a ''/'' (elapsed env) 400 # recent_requests (metrics w))
             \<and> session_data w' = record_session (rcd env) a ''/'' ''unknown'' (session_data w)
             \<and> (\<exists>s. map_of (session_data w') a = Some s \<and> device_type s = ''unknown''))"
proof -
  let ?r = "record_req (rcd env) a ''/'' (elapsed env) 400 ''unknown''"
  let ?w0 = "w\<lparr>metrics := (metrics w)\<lparr>active_clients := active_clients (metrics w) + 1\<rparr>\<rparr>"
  have tb: "try_block env fs a ?w0 = (?r ?w0, [SendAll bad_request], None)"
    by (rule try_block_malformed [OF assms])
  have codes: "status_codes (metrics (fst (handle_client env fs a w))) = bump (status_codes (metrics w)) ''400''"
    by (simp add: handle_client_def Let_def tb record_req_status_codes str_int_400)
  have sd: "session_data (fst (handle_client env fs a w)) = record_session (rcd env) a ''/'' ''unknown'' (session_data w)"
    by (simp add: handle_client_def Let_def tb record_req_session_data)
  have recent: "recent_requests (metrics (fst (handle_client env fs a w))) =
                  take 100 (new_entry (rcd env) a ''/'' (elapsed env) 400 # recent_requests (metrics w))"
    by (simp add: handle_client_def Let_def tb record_req_recent MAX_RECENT_def)
  have evs: "snd (handle_client env fs a w) = [SendAll bad_request, Close]"
    by (simp add: handle_client_def Let_def tb)
  from record_session_lookup [of "rcd env" a "''/''" "''unknown''" "session_data w"]
  have dev: "\<exists>s. map_of (record_session (rcd env) a ''/'' ''unknown'' (session_data w)) a = Some s
                 \<and> device_type s = ''unknown''"
    by blast
  show ?thesis
    unfolding Let_def
    using evs recent dev by (simp add: codes sd bump_same bump_other)
qed

text \<open>The client that sends \<^verbatim>\<open>GET /\<close> to a server that has just started.\<close>

theorem malformed_request_answered_400_witness:
  "recv malformed_client = Inr ''GET /'' \<and> ''GET /'' \<noteq> []
   \<and> length (split_ws (first_line (split_crlf ''GET /''))) < 3
   \<and> snd (handle_client malformed_client no_files ''10.0.0.1'' initial_world)
        = [SendAll bad_request, Close]
   \<and> status_codes (metrics (fst (handle_client malformed_client no_files ''10.0.0.1'' initial_world)))
        ''400'' = Some 1
   \<and> status_codes (metrics (fst (handle_client malformed_client no_files ''10.0.0.1'' initial_world)))
        ''200'' = Some 0
   \<and> map (\<lambda>p. device_type (snd p))
        (session_data (fst (handle_client malformed_client no_files ''10.0.0.1'' initial_world)))
        = [''unknown'']"
proof -
  have r: "recv malformed_client = Inr ''GET /''" by (simp add: malformed_client_def)
  have ne: "''GET /'' \<noteq> []" by simp
  have short: "length (split_ws (first_line (split_crlf ''GET /''))) < 3"
    by (simp add: split_crlf_def first_line_def split_ws_def is_space_def)
  have sd: "map (\<lambda>p. device_type (snd p))
              (record_session (rcd malformed_client) ''10.0.0.1'' ''/'' ''unknown'' (session_data initial_world))
            = [''unknown'']"
    by (simp add: record_session_def initial_world_def Let_def)
  from malformed_request_answered_400 [OF r ne short, of no_files "''10.0.0.1''" initial_world]
  show ?thesis
    using r short sd by (simp add: Let_def initial_world_def initial_metrics_def)
qed

text \<open>
  An empty read is not answered and not recorded: the handler returns at once, and only
  closes the socket.
\<close>

lemma empty_read_silent:
  assumes "recv env = Inr []"
  shows "snd (handle_client env fs a w) = [Close]"
    and "status_codes (metrics (fst (handle_client env fs a w))) = status_codes (metrics w)"
    and "total_requests (metrics (fst (handle_client env fs a w))) = total_requests (metrics w)"
  using assms by (simp_all add: handle_client_def try_block_def Let_def)

lemma get_file_active:
  "active_clients (metrics (fst (get_file fs p w))) = active_clients (metrics w)"
  by (simp add: get_file_def Let_def split: fs_entry.split)

lemma ensure_active:
  "active_clients (metrics (fst (ensure_session_for_ip env a w))) = active_clients (metrics w)"
  by (simp add: ensure_session_for_ip_def ensure_create_def Let_def split: option.split)

text \<open>
  Nothing inside the \<^verbatim>\<open>try\<close> writes the counter, whichever way the block is left: one
  case for each way.
\<close>

lemma try_block_active:
  "active_clients (metrics (fst (try_block env fs a w))) = active_clients (metrics w)"
proof (cases "recv env")
  case (Inl e)
  then show ?thesis by (simp add: try_block_def)
next
  case (Inr req)
  show ?thesis
  proof (cases "req = []")
    case True
    with Inr show ?thesis by (simp add: try_block_def)
  next
    case False
    let ?parts = "split_ws (first_line (split_crlf req))"
    show ?thesis
    proof (cases "length ?parts < 3")
      case True
      with Inr False show ?thesis by (simp add: try_block_def Let_def record_req_active)
    next
      case long: False
      show ?thesis
      proof (cases "\<exists>m p q. ?parts = [m, p, q]")
        case True
        then obtain m p q where parts: "?parts = [m, p, q]" by blast
        let ?path = "if p = ''/'' then ''/index.html'' else p"
        obtain w1 body sc where gf: "get_file fs ?path w = (w1, body, sc)"
          by (cases "get_file fs ?path w") auto
        obtain w2 sid where en: "ensure_session_for_ip (ens env) a w1 = (w2, sid)"
          by (cases "ensure_session_for_ip (ens env) a w1") auto
        have "active_clients (metrics w1) = active_clients (metrics w)"
          using get_file_active [of fs ?path w] gf by simp
        moreover have "active_clients (metrics w2) = active_clients (metrics w1)"
          using ensure_active [of "ens env" a w1] en by simp
        ultimately show ?thesis
          using Inr False long parts gf en
          by (simp add: try_block_def Let_def record_req_active)
      next
        case False
        then have "(case ?parts of [m, p, q] \<Rightarrow> f m p q | _ \<Rightarrow> g) = g"
          for f :: "string \<Rightarrow> string \<Rightarrow> string \<Rightarrow> world \<times> event list \<times> error option" and g
          by (auto split: list.split)
        with Inr \<open>req \<noteq> []\<close> long show ?thesis
          by (simp add: try_block_def Let_def)
      qed
    qed
  qed
qed

text \<open>The counter never goes below 0, so from the start of the server it is never negative.\<close>

lemma handle_client_active_nonneg:
  "0 \<le> active_clients (metrics (fst (handle_client env fs a w)))"
  by (simp add: handle_client_def Let_def split: prod.split)

text \<open>
  Claim C8. Whatever the socket does and whatever the request is (an answer sent, a
  malformed line, an empty read, an exception inside the \<^verbatim>\<open>try\<close>), the active-client
  counter after \<^verbatim>\<open>handle_client\<close> is what it was before, for a counter that is not
  negative, as it is in every state the server reaches.
\<close>

theorem active_clients_balanced:
  "0 \<le> active_clients (metrics w) \<Longrightarrow>
   active_clients (metrics (fst (handle_client env fs a w))) = active_clients (metrics w)"
proof -
  assume nonneg: "0 \<le> active_clients (metrics w)"
  let ?w0 = "w\<lparr>metrics := (metrics w)\<lparr>active_clients := active_clients (metrics w) + 1\<rparr>\<rparr>"
  obtain w1 evs exc where tb: "try_block env fs a ?w0 = (w1, evs, exc)"
    by (cases "try_block env fs a ?w0") auto
  have "active_clients (metrics w1) = active_clients (metrics w) + 1"
    using try_block_active [of env fs a ?w0] tb by simp
  with nonneg tb show ?thesis
    by (simp add: handle_client_def Let_def)
qed

theorem active_clients_balanced_witness:
  "0 \<le> active_clients (metrics initial_world)
   \<and> active_clients (metrics (fst (handle_client good_client two_files ''10.0.0.1'' initial_world))) = 0
   \<and> active_clients (metrics (fst (handle_client malformed_client two_files ''10.0.0.1'' initial_world))) = 0"
proof -
  have z: "active_clients (metrics initial_world) = 0"
    by (simp add: initial_world_def initial_metrics_def)
  then have nonneg: "0 \<le> active_clients (metrics initial_world)" by simp
  from active_clients_balanced [OF nonneg, of good_client two_files "''10.0.0.1''"]
    active_clients_balanced [OF nonneg, of malformed_client two_files "''10.0.0.1''"]
  show ?thesis by (simp add: z)
qed


subsection \<open>The cache: \<^verbatim>\<open>get_file\<close> and \<^verbatim>\<open>toggle_cache\<close>\<close>

text \<open>What \<^verbatim>\<open>get_file\<close> does when it does not answer from the cache.\<close>

lemma get_file_miss:
  assumes "\<not> (cache_enabled (metrics w) \<and> file_cache w path \<noteq> None)"
  shows "get_file fs path w =
     (let w1 = w\<lparr>metrics := (metrics w)\<lparr>cache_misses := cache_misses (metrics w) + 1\<rparr>\<rparr>
      in case fs (static_loc path) of
           Readable body \<Rightarrow>
             (if cache_enabled (metrics w) then w1\<lparr>file_cache := (file_cache w)(path \<mapsto> body)\<rparr> else w1,
              body, 200)
         | Unreadable \<Rightarrow> (w1, ''<h1>500 - File read error</h1>'', 500)
         | _ \<Rightarrow> (w1, ''<h1>404 - Not Found</h1>'', 404))"
  using assms
  by (auto simp: get_file_def Let_def path_exists_def isfile_def split: fs_entry.split)

text \<open>
  Claim C7. When \<^verbatim>\<open>get_file\<close> goes to the disk (the cache is off or does not hold the
  path) and the path does not name a file it can read, it returns the 500 body with
  status 500 if the path names a file on which reading raises, and the 404 body with
  status 404 otherwise; in both cases \<^verbatim>\<open>file_cache\<close> is what it was.
\<close>

theorem get_file_failure_not_cached:
  assumes "\<not> (cache_enabled (metrics w) \<and> file_cache w path \<noteq> None)"
    and "\<forall>body. fs (static_loc path) \<noteq> Readable body"
  shows "snd (get_file fs path w) =
           (if fs (static_loc path) = Unreadable
            then (''<h1>500 - File read error</h1>'', 500)
            else (''<h1>404 - Not Found</h1>'', 404))
         \<and> file_cache (fst (get_file fs path w)) = file_cache w
         \<and> cache_misses (metrics (fst (get_file fs path w))) = cache_misses (metrics w) + 1"
  using assms(2)
  by (cases "fs (static_loc path)") (simp_all add: get_file_miss [OF assms(1)] Let_def)

text \<open>A file that cannot be read and a name that is absent, on a server that has just started.\<close>

theorem get_file_failure_not_cached_witness:
  "\<not> (cache_enabled (metrics initial_world) \<and> file_cache initial_world ''/b.html'' \<noteq> None)
   \<and> (\<forall>body. two_files (static_loc ''/b.html'') \<noteq> Readable body)
   \<and> snd (get_file two_files ''/b.html'' initial_world) = (''<h1>500 - File read error</h1>'', 500)
   \<and> file_cache (fst (get_file two_files ''/b.html'' initial_world)) = Map.empty
   \<and> \<not> (cache_enabled (metrics initial_world) \<and> file_cache initial_world ''/c.html'' \<noteq> None)
   \<and> (\<forall>body. two_files (static_loc ''/c.html'') \<noteq> Readable body)
   \<and> snd (get_file two_files ''/c.html'' initial_world) = (''<h1>404 - Not Found</h1>'', 404)
   \<and> file_cache (fst (get_file two_files ''/c.html'' initial_world)) = Map.empty"
proof -
  have h1: "\<not> (cache_enabled (metrics initial_world) \<and> file_cache initial_world p \<noteq> None)" for p
    by (simp add: initial_world_def)
  have b: "\<forall>body. two_files (static_loc ''/b.html'') \<noteq> Readable body"
    by (simp add: two_files_def static_loc_def lstrip_slash_def)
  have c: "\<forall>body. two_files (static_loc ''/c.html'') \<noteq> Readable body"
    by (simp add: two_files_def static_loc_def lstrip_slash_def)
  have ub: "two_files (static_loc ''/b.html'') = Unreadable"
    by (simp add: two_files_def static_loc_def lstrip_slash_def)
  have uc: "two_files (static_loc ''/c.html'') \<noteq> Unreadable"
    by (simp add: two_files_def static_loc_def lstrip_slash_def)
  show ?thesis
    using get_file_failure_not_cached [where w = initial_world and path = "''/b.html''" and fs = two_files]
      get_file_failure_not_cached [where w = initial_world and path = "''/c.html''" and fs = two_files]
      h1 b c
    by (simp add: ub uc initial_world_def)
qed

lemma toggle_cache_flag:
  "cache_enabled (metrics (fst (toggle_cache w))) = (\<not> cache_enabled (metrics w))"
  by (simp add: toggle_cache_def Let_def)

lemma toggle_cache_off:
  "cache_enabled (metrics w) \<Longrightarrow> file_cache (fst (toggle_cache w)) = Map.empty"
  by (simp add: toggle_cache_def Let_def)

lemma toggle_cache_on:
  "\<not> cache_enabled (metrics w) \<Longrightarrow> file_cache (fst (toggle_cache w)) = file_cache w"
  by (simp add: toggle_cache_def Let_def)

lemma get_file_from_disk:
  assumes "\<not> (cache_enabled (metrics w) \<and> file_cache w path \<noteq> None)"
  shows "cache_misses (metrics (fst (get_file fs path w))) = cache_misses (metrics w) + 1"
    and "cache_hits (metrics (fst (get_file fs path w))) = cache_hits (metrics w)"
    and "fs (static_loc path) = Readable body \<Longrightarrow> snd (get_file fs path w) = (body, 200)"
  by (simp_all add: get_file_miss [OF assms] Let_def split: fs_entry.split)

text \<open>
  Claim C6. \<^verbatim>\<open>toggle_cache\<close> negates the flag and returns the new value. When the new
  value is off, the cache is empty afterwards, and it is still empty after a second
  toggle has turned the flag on again; in both worlds \<^verbatim>\<open>get_file\<close> counts a miss and no
  hit for any path, and returns what the disk holds for a file that can be read.
\<close>

theorem toggle_cache_flips_and_evicts:
  "snd (toggle_cache w) = (\<not> cache_enabled (metrics w))
   \<and> cache_enabled (metrics (fst (toggle_cache w))) = (\<not> cache_enabled (metrics w))
   \<and> (\<not> cache_enabled (metrics (fst (toggle_cache w))) \<longrightarrow>
        file_cache (fst (toggle_cache w)) = Map.empty
        \<and> (let off = fst (toggle_cache w); on = fst (toggle_cache off)
           in cache_enabled (metrics on) \<and> file_cache on = Map.empty
              \<and> cache_misses (metrics (fst (get_file fs path off))) = cache_misses (metrics off) + 1
              \<and> cache_hits (metrics (fst (get_file fs path off))) = cache_hits (metrics off)
              \<and> cache_misses (metrics (fst (get_file fs path on))) = cache_misses (metrics on) + 1
              \<and> cache_hits (metrics (fst (get_file fs path on))) = cache_hits (metrics on)
              \<and> (\<forall>body. fs (static_loc path) = Readable body \<longrightarrow>
                   snd (get_file fs path off) = (body, 200) \<and> snd (get_file fs path on) = (body, 200))))"
proof -
  let ?off = "fst (toggle_cache w)"
  let ?on = "fst (toggle_cache ?off)"
  have flag: "cache_enabled (metrics ?off) = (\<not> cache_enabled (metrics w))"
    by (rule toggle_cache_flag)
  have ret: "snd (toggle_cache w) = (\<not> cache_enabled (metrics w))"
    by (simp add: toggle_cache_def Let_def)
  {
    assume off: "\<not> cache_enabled (metrics ?off)"
    then have was_on: "cache_enabled (metrics w)" by (simp add: flag)
    have empty_off: "file_cache ?off = Map.empty" by (rule toggle_cache_off [OF was_on])
    have on: "cache_enabled (metrics ?on)" using off by (simp add: toggle_cache_flag)
    have empty_on: "file_cache ?on = Map.empty"
      using toggle_cache_on [OF off] empty_off by simp
    have miss_off: "\<not> (cache_enabled (metrics ?off) \<and> file_cache ?off path \<noteq> None)"
      using off by simp
    have miss_on: "\<not> (cache_enabled (metrics ?on) \<and> file_cache ?on path \<noteq> None)"
      by (simp add: empty_on)
    note get_file_from_disk [OF miss_off, of fs] get_file_from_disk [OF miss_on, of fs]
    with empty_off on empty_on
    have "file_cache ?off = Map.empty
        \<and> (cache_enabled (metrics ?on) \<and> file_cache ?on = Map.empty
              \<and> cache_misses (metrics (fst (get_file fs path ?off))) = cache_misses (metrics ?off) + 1
              \<and> cache_hits (metrics (fst (get_file fs path ?off))) = cache_hits (metrics ?off)
              \<and> cache_misses (metrics (fst (get_file fs path ?on))) = cache_misses (metrics ?on) + 1
              \<and> cache_hits (metrics (fst (get_file fs path ?on))) = cache_hits (metrics ?on)
              \<and> (\<forall>body. fs (static_loc path) = Readable body \<longrightarrow>
                   snd (get_file fs path ?off) = (body, 200) \<and> snd (get_file fs path ?on) = (body, 200)))"
      by simp
  }
  then show ?thesis
    unfolding Let_def using flag ret by blast
qed

text \<open>
  The world that holds \<^verbatim>\<open>/a.html\<close> in its cache answers from the cache even when the
  file is gone; after the cache has been turned off and on again the same request goes
  to the disk.
\<close>

theorem toggle_cache_flips_and_evicts_witness:
  "cache_enabled (metrics cached_world)
   \<and> file_cache cached_world ''/a.html'' = Some ''<p>a</p>''
   \<and> snd (get_file no_files ''/a.html'' cached_world) = (''<p>a</p>'', 200)
   \<and> \<not> cache_enabled (metrics (fst (toggle_cache cached_world)))
   \<and> file_cache (fst (toggle_cache cached_world)) = Map.empty
   \<and> cache_enabled (metrics (fst (toggle_cache (fst (toggle_cache cached_world)))))
   \<and> file_cache (fst (toggle_cache (fst (toggle_cache cached_world)))) = Map.empty
   \<and> two_files (static_loc ''/a.html'') = Readable ''<p>a</p>''
   \<and> snd (get_file two_files ''/a.html'' (fst (toggle_cache (fst (toggle_cache cached_world)))))
        = (''<p>a</p>'', 200)
   \<and> cache_misses (metrics (fst (get_file two_files ''/a.html''
        (fst (toggle_cache (fst (toggle_cache cached_world))))))) = 2
   \<and> cache_hits (metrics (fst (get_file two_files ''/a.html''
        (fst (toggle_cache (fst (toggle_cache cached_world))))))) = 0"
proof -
  have a_file: "two_files (static_loc ''/a.html'') = Readable ''<p>a</p>''"
    by (simp add: two_files_def static_loc_def lstrip_slash_def)
  have cw: "cached_world =
      initial_world\<lparr>metrics := (metrics initial_world)\<lparr>cache_misses := 1\<rparr>,
                    file_cache := [''/a.html'' \<mapsto> ''<p>a</p>'']\<rparr>"
    by (simp add: cached_world_def get_file_def a_file Let_def path_exists_def isfile_def
        initial_world_def initial_metrics_def)
  have on: "cache_enabled (metrics cached_world)"
    by (simp add: cw initial_world_def initial_metrics_def)
  have held: "file_cache cached_world ''/a.html'' = Some ''<p>a</p>''"
    by (simp add: cw)
  have hit: "snd (get_file no_files ''/a.html'' cached_world) = (''<p>a</p>'', 200)"
    by (simp add: get_file_def on held)
  have off: "\<not> cache_enabled (metrics (fst (toggle_cache cached_world)))"
    using on by (simp add: toggle_cache_flag)
  have counts: "cache_misses (metrics (fst (toggle_cache (fst (toggle_cache cached_world))))) = 1"
    "cache_hits (metrics (fst (toggle_cache (fst (toggle_cache cached_world))))) = 0"
    by (simp_all add: toggle_cache_def Let_def cw initial_world_def initial_metrics_def)
  from toggle_cache_flips_and_evicts [of cached_world two_files "''/a.html''"] off a_file
  show ?thesis
    using on held hit counts by (simp add: Let_def)
qed

subsection \<open>Percentiles\<close>

text \<open>
  A cut point in exact arithmetic lies on the line through two neighbours of the sorted
  data: \<open>cut_index\<close> is the index of the upper one.
\<close>

lemma exact_cut_alt:
  assumes "0 < n"
  shows "exact_cut data n i =
     (let j = cut_index (length data) n i; delta = int (i * (length data + 1)) - int (j * n)
      in data ! (j - 1) + (data ! j - data ! (j - 1)) * (of_int delta / of_nat n))"
  using assms by (simp add: exact_cut_def Let_def field_simps)

lemma cut_index_mono: "2 \<le> ld \<Longrightarrow> i \<le> i' \<Longrightarrow> cut_index ld n i \<le> cut_index ld n i'"
proof -
  assume "2 \<le> ld" and "i \<le> i'"
  then have "i * (ld + 1) div n \<le> i' * (ld + 1) div n"
    by (intro div_le_mono mult_le_mono1)
  with \<open>2 \<le> ld\<close> show ?thesis by (auto simp: cut_index_def Let_def)
qed

lemma cut_index_range: "2 \<le> ld \<Longrightarrow> 1 \<le> cut_index ld n i \<and> cut_index ld n i \<le> ld - 1"
  by (auto simp: cut_index_def Let_def)

text \<open>
  In exact arithmetic the cut points of sorted data do not decrease. Two cut points on
  the same segment are ordered by their \<open>delta\<close>; otherwise the lower one is at most
  the upper end of its segment and the upper one at least the lower end of its own.
\<close>

lemma exact_cut_mono:
  assumes srt: "sorted data" and ld: "2 \<le> length data" and n: "0 < n" and ii: "i \<le> i'"
  shows "exact_cut data n i \<le> exact_cut data n i'"
proof -
  define ld where "ld = length data"
  define j j' where "j = cut_index ld n i" and "j' = cut_index ld n i'"
  define d d' where "d = int (i * (ld + 1)) - int (j * n)"
    and "d' = int (i' * (ld + 1)) - int (j' * n)"
  have ld2: "2 \<le> ld" using ld by (simp add: ld_def)
  have jj: "j \<le> j'" unfolding j_def j'_def using ld2 ii by (rule cut_index_mono)
  have rj: "1 \<le> j" "j \<le> ld - 1" and rj': "1 \<le> j'" "j' \<le> ld - 1"
    using cut_index_range [OF ld2] by (simp_all add: j_def j'_def)
  have slope: "data ! (k - 1) \<le> data ! k" if "k \<le> ld - 1" for k
    using srt that ld2 by (intro sorted_nth_mono) (auto simp: ld_def)
  have npos: "0 < (of_nat n :: real)" using n by simp
  have c: "exact_cut data n i = data ! (j - 1) + (data ! j - data ! (j - 1)) * (of_int d / of_nat n)"
    using exact_cut_alt [OF n, of data i] by (simp only: Let_def j_def d_def ld_def)
  have c': "exact_cut data n i' = data ! (j' - 1) + (data ! j' - data ! (j' - 1)) * (of_int d' / of_nat n)"
    using exact_cut_alt [OF n, of data i'] by (simp only: Let_def j'_def d'_def ld_def)
  show ?thesis
  proof (cases "j = j'")
    case True
    have "i * (ld + 1) \<le> i' * (ld + 1)" using ii by (rule mult_le_mono1)
    then have "int (i * (ld + 1)) \<le> int (i' * (ld + 1))" by (simp only: of_nat_le_iff)
    then have "d \<le> d'" using True by (simp add: d_def d'_def)
    then have "(of_int d :: real) \<le> of_int d'" by simp
    then have "(of_int d / of_nat n :: real) \<le> of_int d' / of_nat n"
      using npos by (intro divide_right_mono) simp_all
    then have "(data ! j - data ! (j - 1)) * (of_int d / of_nat n)
                 \<le> (data ! j - data ! (j - 1)) * (of_int d' / of_nat n)"
      using slope [OF rj(2)] by (intro mult_left_mono) simp_all
    then show ?thesis unfolding c c' using True by simp
  next
    case False
    with jj have lt: "j < j'" by simp
    \<comment> \<open>the lower index was not cut down to \<open>ld - 1\<close>, so its \<open>delta\<close> is below \<open>n\<close>\<close>
    have "i * (ld + 1) div n \<le> j"
      using lt rj'(2) by (auto simp: j_def cut_index_def Let_def split: if_splits)
    then have "i * (ld + 1) div n < j + 1" by simp
    then have "i * (ld + 1) < (j + 1) * n"
      using n by (simp only: div_less_iff_less_mult)
    then have "int (i * (ld + 1)) < int ((j + 1) * n)" by (simp only: of_nat_less_iff)
    then have "d \<le> int n" by (simp add: d_def algebra_simps)
    then have "(of_int d :: real) \<le> of_nat n" by (metis of_int_le_iff of_int_of_nat_eq)
    then have "(of_int d / of_nat n :: real) \<le> 1"
      using npos by (simp add: pos_divide_le_eq)
    then have "(data ! j - data ! (j - 1)) * (of_int d / of_nat n) \<le> (data ! j - data ! (j - 1)) * 1"
      using slope [OF rj(2)] by (intro mult_left_mono) simp_all
    then have up: "exact_cut data n i \<le> data ! j" unfolding c by simp
    \<comment> \<open>the upper index was not raised to 1, so its \<open>delta\<close> is not negative\<close>
    have "j' \<le> i' * (ld + 1) div n"
      using lt rj(1) by (auto simp: j'_def j_def cut_index_def Let_def split: if_splits)
    then have "j' * n \<le> i' * (ld + 1)"
      using n by (simp add: less_eq_div_iff_mult_less_eq)
    then have "int (j' * n) \<le> int (i' * (ld + 1))" by (simp only: of_nat_le_iff)
    then have "0 \<le> d'" by (simp add: d'_def)
    then have "0 \<le> (of_int d' / of_nat n :: real)" using npos by simp
    then have "0 \<le> (data ! j' - data ! (j' - 1)) * (of_int d' / of_nat n)"
      using slope [OF rj'(2)] by (intro mult_nonneg_nonneg) simp_all
    then have low: "data ! (j' - 1) \<le> exact_cut data n i'" unfolding c' by simp
    have "data ! j \<le> data ! (j' - 1)"
      using srt lt rj'(2) ld2 by (intro sorted_nth_mono) (auto simp: ld_def)
    with up low show ?thesis by linarith
  qed
qed


text \<open>What \<^verbatim>\<open>_calc_percentiles\<close> returns on no sample, on one, and on two or more.\<close>

lemma calc_percentiles_empty: "calc_percentiles [] pct = Inr 0"
  by (simp add: calc_percentiles_def)

lemma primary_percentile_single: "primary_percentile [x] pct = Inl StatisticsError"
  by (simp add: primary_percentile_def quantiles_def)

lemma length_sorted_ms: "length (sorted_ms samples) = length samples"
  by (simp add: sorted_ms_def)

lemma fallback_percentile_single:
  assumes "0 \<le> pct" and "pct < 200"
  shows "fallback_percentile [x] pct = Inr (py_round (x * 1000) 2)"
proof -
  have "0 \<le> pct / 100" and "pct / 100 < 2" using assms by simp_all
  then have "\<lfloor>pct / 100\<rfloor> \<le> 1" and "0 \<le> \<lfloor>pct / 100\<rfloor>" by linarith+
  then have "max 0 (py_int (pct / 100) - 1) = 0"
    using assms by (simp add: py_int_def)
  then show ?thesis
    by (simp add: fallback_percentile_def sorted_ms_def Let_def py_index_def)
qed

lemma calc_percentiles_single:
  assumes "0 \<le> pct" and "pct < 200"
  shows "calc_percentiles [x] pct = Inr (py_round (x * 1000) 2)"
  by (simp add: calc_percentiles_def primary_percentile_single fallback_percentile_single [OF assms])

lemma primary_percentile_many:
  assumes "2 \<le> length samples" and "1 \<le> k" and "k \<le> 99"
  shows "primary_percentile samples (of_nat k) =
           Inr (py_round (fl (1000 * quantile_cut (sort samples) 100 k)) 2)"
proof -
  have q: "quantiles samples 100 = Inr (map (quantile_cut (sort samples) 100) [1..<100])"
    using assms(1) by (simp add: quantiles_def Let_def del: upt_rec_numeral)
  have idx: "py_int (of_nat k) - 1 = int (k - 1)" using assms(2) by (simp add: py_int_def)
  have lt: "k - 1 < 99" using assms by simp
  have "map (quantile_cut (sort samples) 100) [1..<100] ! (k - 1) = quantile_cut (sort samples) 100 k"
    using lt assms(2) by (simp del: upt_rec_numeral)
  then have "py_index (map (quantile_cut (sort samples) 100) [1..<100]) (py_int (of_nat k) - 1)
          = Inr (quantile_cut (sort samples) 100 k)"
    unfolding idx using lt by (simp add: py_index_def Let_def del: upt_rec_numeral)
  then show ?thesis
    by (simp add: primary_percentile_def q del: upt_rec_numeral)
qed

lemma calc_percentiles_many:
  assumes "2 \<le> length samples" and "1 \<le> k" and "k \<le> 99"
  shows "calc_percentiles samples (of_nat k) =
           Inr (py_round (fl (1000 * quantile_cut (sort samples) 100 k)) 2)"
proof -
  have "samples \<noteq> []" using assms(1) by auto
  then show ?thesis
    by (simp add: calc_percentiles_def primary_percentile_many [OF assms])
qed

lemma calc_percentiles_total:
  "\<exists>a b. calc_percentiles samples 95 = Inr a \<and> calc_percentiles samples 99 = Inr b"
proof -
  consider "samples = []" | x where "samples = [x]" | "2 \<le> length samples"
    by (cases samples rule: list.exhaust; cases "tl samples") auto
  then show ?thesis
  proof cases
    case 1
    then show ?thesis by (simp add: calc_percentiles_empty)
  next
    case 2
    then show ?thesis by (simp add: calc_percentiles_single)
  next
    case 3
    show ?thesis
      using calc_percentiles_many [OF 3, of 95] calc_percentiles_many [OF 3, of 99] by simp
  qed
qed

text \<open>
  On samples of the grid the interpolation is exact up to its division: for the cut
  points 95 and 99 the multipliers \<open>n - delta\<close> and \<open>delta\<close> are below 200 in size, so the
  two products and their sum are multiples of \<open>2\<^sup>-\<^sup>2\<^sup>2\<close> below \<open>2\<^sup>3\<^sup>1\<close>.
\<close>

lemma cut_delta_bounds:
  assumes "2 \<le> ld" and "i = 95 \<or> i = 99"
  shows "0 \<le> int (i * (ld + 1)) - int (cut_index ld 100 i * 100)"
    and "int (i * (ld + 1)) - int (cut_index ld 100 i * 100) < 200"
  using assms by (auto simp: cut_index_def Let_def)

lemma grid_product:
  assumes "on_grid x" and "\<bar>k\<bar> \<le> 200"
  shows "(x * of_int k) * 2 ^ 22 \<in> \<int>" and "\<bar>x * of_int k\<bar> \<le> 2 ^ 20 * 200"
proof -
  have "(x * of_int k) * 2 ^ 22 = (x * 2 ^ 22) * of_int k" by (simp add: algebra_simps)
  then show "(x * of_int k) * 2 ^ 22 \<in> \<int>"
    using on_grid_Ints [OF assms(1)] by (simp only: Ints_mult Ints_of_int)
  have "\<bar>of_int k :: real\<bar> \<le> 200" using assms(2) by (simp flip: of_int_abs)
  then have "\<bar>x\<bar> * \<bar>of_int k :: real\<bar> \<le> 2 ^ 20 * 200"
    using on_grid_abs [OF assms(1)] by (intro mult_mono) simp_all
  then show "\<bar>x * of_int k\<bar> \<le> 2 ^ 20 * 200" by (simp only: abs_mult)
qed

lemma quantile_cut_on_grid:
  assumes g: "\<forall>x\<in>set data. on_grid x" and ld: "2 \<le> length data" and i: "i = 95 \<or> i = 99"
  shows "quantile_cut data 100 i = fl (exact_cut data 100 i)"
proof -
  define j where "j = cut_index (length data) 100 i"
  define delta where "delta = int (i * (length data + 1)) - int (j * 100)"
  have rj: "1 \<le> j" "j \<le> length data - 1"
    using cut_index_range [OF ld, of 100 i] by (simp_all add: j_def)
  have d: "0 \<le> delta" "delta < 200"
    using cut_delta_bounds [OF ld i] by (simp_all add: delta_def j_def)
  define a b where "a = data ! (j - 1)" and "b = data ! j"
  have "j - 1 < length data" and "j < length data" using rj ld by simp_all
  then have ga: "on_grid a" and gb: "on_grid b" using g by (simp_all add: a_def b_def)
  define pa pb where "pa = a * of_int (int 100 - delta)" and "pb = b * of_int delta"
  have ka: "\<bar>int 100 - delta\<bar> \<le> 200" and kb: "\<bar>delta\<bar> \<le> 200" using d by simp_all
  note A = grid_product [OF ga ka, folded pa_def]
  note B = grid_product [OF gb kb, folded pb_def]
  have fa: "fl pa = pa" using A by (intro fl_multiple) simp_all
  have fb: "fl pb = pb" using B by (intro fl_multiple) simp_all
  have "(pa + pb) * 2 ^ 22 = pa * 2 ^ 22 + pb * 2 ^ 22" by (simp add: algebra_simps)
  then have si: "(pa + pb) * 2 ^ 22 \<in> \<int>" using A(1) B(1) by (simp only: Ints_add)
  have "\<bar>pa + pb\<bar> \<le> \<bar>pa\<bar> + \<bar>pb\<bar>" by (rule abs_triangle_ineq)
  with A(2) B(2) have "\<bar>pa + pb\<bar> < 2 ^ 31" by simp
  with si have fs: "fl (pa + pb) = pa + pb" by (rule fl_multiple)
  have q: "quantile_cut data 100 i = fl (fl (fl pa + fl pb) / of_nat 100)"
    unfolding quantile_cut_def cut_index_def Let_def pa_def pb_def a_def b_def delta_def j_def
    by (rule refl)
  have e: "exact_cut data 100 i = (pa + pb) / of_nat 100"
    unfolding exact_cut_def Let_def pa_def pb_def a_def b_def delta_def j_def
    by (rule refl)
  show ?thesis by (simp only: q e fa fb fs)
qed

lemma calc_percentiles_ordered_on_grid:
  assumes "\<forall>x\<in>set samples. on_grid x"
  shows "\<exists>a b. calc_percentiles samples 95 = Inr a \<and> calc_percentiles samples 99 = Inr b \<and> a \<le> b"
proof -
  consider "samples = []" | x where "samples = [x]" | "2 \<le> length samples"
    by (cases samples rule: list.exhaust; cases "tl samples") auto
  then show ?thesis
  proof cases
    case 1
    then show ?thesis by (simp add: calc_percentiles_empty)
  next
    case 2
    then show ?thesis by (simp add: calc_percentiles_single)
  next
    case 3
    let ?data = "sort samples"
    have g: "\<forall>x\<in>set ?data. on_grid x" using assms by simp
    have ld: "2 \<le> length ?data" using 3 by simp
    have "exact_cut ?data 100 95 \<le> exact_cut ?data 100 99"
      using ld by (intro exact_cut_mono) simp_all
    then have "fl (exact_cut ?data 100 95) \<le> fl (exact_cut ?data 100 99)" by (rule fl_mono)
    then have "quantile_cut ?data 100 95 \<le> quantile_cut ?data 100 99"
      using quantile_cut_on_grid [OF g ld, of 95] quantile_cut_on_grid [OF g ld, of 99] by simp
    then have "1000 * quantile_cut ?data 100 95 \<le> 1000 * quantile_cut ?data 100 99" by simp
    then have "fl (1000 * quantile_cut ?data 100 95) \<le> fl (1000 * quantile_cut ?data 100 99)"
      by (rule fl_mono)
    then have "py_round (fl (1000 * quantile_cut ?data 100 95)) 2
                 \<le> py_round (fl (1000 * quantile_cut ?data 100 99)) 2"
      by (rule py_round_mono)
    moreover have "calc_percentiles samples 95 = Inr (py_round (fl (1000 * quantile_cut ?data 100 95)) 2)"
      using calc_percentiles_many [OF 3, of 95] by simp
    moreover have "calc_percentiles samples 99 = Inr (py_round (fl (1000 * quantile_cut ?data 100 99)) 2)"
      using calc_percentiles_many [OF 3, of 99] by simp
    ultimately show ?thesis by simp
  qed
qed

text \<open>\<^verbatim>\<open>_get_metrics_copy\<close> always returns a snapshot.\<close>

lemma get_metrics_copy_total:
  "\<exists>snap. get_metrics_copy w = Inr snap
     \<and> calc_percentiles (response_times (metrics w)) 95 = Inr (p95_ms snap)
     \<and> calc_percentiles (response_times (metrics w)) 99 = Inr (p99_ms snap)
     \<and> snap_recent_requests snap = take 20 (recent_requests (metrics w))
     \<and> session_summary snap = map session_row_of (take 20 (map snd (session_data w)))"
proof -
  obtain a b where "calc_percentiles (response_times (metrics w)) 95 = Inr a"
    and "calc_percentiles (response_times (metrics w)) 99 = Inr b"
    using calc_percentiles_total by blast
  then show ?thesis by (simp add: get_metrics_copy_def Let_def)
qed

text \<open>
  Claim C3, as the code has it. On the empty window both percentiles are 0; on a window
  of one sample both are that sample in milliseconds, rounded; on every window
  \<^verbatim>\<open>_calc_percentiles\<close> returns a value for 95 and for 99. When the samples of the window
  are multiples of \<open>2\<^sup>-\<^sup>2\<^sup>2\<close> of at most \<open>2\<^sup>2\<^sup>0\<close> seconds, as the response times that the
  handler measures are, the value for 95 is at most the value for 99, and the
  \<^verbatim>\<open>p95_ms\<close> of the snapshot is at most its \<^verbatim>\<open>p99_ms\<close>.
\<close>

theorem p95_le_p99_on_grid:
  "calc_percentiles [] 95 = Inr 0 \<and> calc_percentiles [] 99 = Inr 0
   \<and> calc_percentiles [x] 95 = Inr (py_round (x * 1000) 2)
   \<and> calc_percentiles [x] 99 = Inr (py_round (x * 1000) 2)
   \<and> (\<exists>a b. calc_percentiles samples 95 = Inr a \<and> calc_percentiles samples 99 = Inr b)
   \<and> ((\<forall>x\<in>set samples. on_grid x) \<longrightarrow>
        (\<exists>a b. calc_percentiles samples 95 = Inr a \<and> calc_percentiles samples 99 = Inr b
               \<and> a \<le> b))
   \<and> ((\<forall>x\<in>set (response_times (metrics w)). on_grid x) \<longrightarrow>
        (\<exists>snap. get_metrics_copy w = Inr snap \<and> p95_ms snap \<le> p99_ms snap))"
proof -
  have snap: "\<exists>snap. get_metrics_copy w = Inr snap \<and> p95_ms snap \<le> p99_ms snap"
    if g: "\<forall>x\<in>set (response_times (metrics w)). on_grid x"
  proof -
    obtain s where s: "get_metrics_copy w = Inr s"
       "calc_percentiles (response_times (metrics w)) 95 = Inr (p95_ms s)"
       "calc_percentiles (response_times (metrics w)) 99 = Inr (p99_ms s)"
      using get_metrics_copy_total by blast
    with calc_percentiles_ordered_on_grid [OF g] have "p95_ms s \<le> p99_ms s" by auto
    with s(1) show ?thesis by blast
  qed
  show ?thesis
    using calc_percentiles_total [of samples] calc_percentiles_ordered_on_grid [of samples] snap
    by (simp add: calc_percentiles_empty calc_percentiles_single)
qed

text \<open>A window of the two samples 1/8 s and 1/4 s.\<close>

theorem p95_le_p99_on_grid_witness:
  "on_grid (1 / 8) \<and> on_grid (1 / 4)
   \<and> (\<exists>a b. calc_percentiles [1 / 8, 1 / 4] 95 = Inr a
           \<and> calc_percentiles [1 / 8, 1 / 4] 99 = Inr b \<and> a \<le> b)
   \<and> response_times (metrics (initial_world\<lparr>metrics := initial_metrics\<lparr>response_times := [1 / 8, 1 / 4]\<rparr>\<rparr>))
       = [1 / 8, 1 / 4]
   \<and> (\<exists>snap. get_metrics_copy (initial_world\<lparr>metrics := initial_metrics\<lparr>response_times := [1 / 8, 1 / 4]\<rparr>\<rparr>)
                = Inr snap \<and> p95_ms snap \<le> p99_ms snap)"
proof -
  let ?w = "initial_world\<lparr>metrics := initial_metrics\<lparr>response_times := [1 / 8, 1 / 4]\<rparr>\<rparr>"
  have g: "on_grid (1 / 8)" "on_grid (1 / 4)" by (simp_all add: on_grid_def)
  then have all: "\<forall>x\<in>set [1 / 8, 1 / 4 :: real]. on_grid x" by simp
  have win: "response_times (metrics ?w) = [1 / 8, 1 / 4]" by simp
  note t = p95_le_p99_on_grid [of 0 "[1 / 8, 1 / 4]" ?w]
  from t all have one: "\<exists>a b. calc_percentiles [1 / 8, 1 / 4] 95 = Inr a
           \<and> calc_percentiles [1 / 8, 1 / 4] 99 = Inr b \<and> a \<le> b"
    by blast
  from t all win have two: "\<exists>snap. get_metrics_copy ?w = Inr snap \<and> p95_ms snap \<le> p99_ms snap"
    by (simp only:)
  from g one win two show ?thesis by (simp only: simp_thms)
qed

text \<open>
  The float operations of \<^verbatim>\<open>statistics.quantiles\<close> on two samples \<^verbatim>\<open>0.010285\<close>: the cut
  point 95 comes out as \<^verbatim>\<open>0.010285000000000002\<close>, the cut point 99 as
  \<^verbatim>\<open>0.010284999999999999\<close>.
\<close>

lemma quantile_cut_pair:
  "quantile_cut [x, x] 100 95 = fl (fl (fl (x * (- 85)) + fl (x * 185)) / 100)"
  "quantile_cut [x, x] 100 99 = fl (fl (fl (x * (- 97)) + fl (x * 197)) / 100)"
  by (simp_all add: quantile_cut_def Let_def)

lemma cut_95_of_pair: "quantile_cut [float_0_010285, float_0_010285] 100 95 = 741112354680089 / 2 ^ 56"
proof -
  have a: "fl (5928898837440711 / 2 ^ 59 * (- 85)) = - 984289846059493 / 2 ^ 50"
    by (subst fl_eval [where k = "- 1"]) (simp_all add: round_half_even_def Let_def)
  have b: "fl (5928898837440711 / 2 ^ 59 * 185) = 535569475061783 / 2 ^ 48"
    by (subst fl_eval [where k = 0]) (simp_all add: round_half_even_def Let_def)
  have s: "fl (- 984289846059493 / 2 ^ 50 + 535569475061783 / 2 ^ 48) = 1157988054187639 / 2 ^ 50"
    by (subst fl_eval [where k = 0]) (simp_all add: round_half_even_def Let_def)
  have q: "fl (1157988054187639 / 2 ^ 50 / 100) = 741112354680089 / 2 ^ 56"
    by (subst fl_eval [where k = "- 7"]) (simp_all add: round_half_even_def Let_def)
  show ?thesis
    unfolding quantile_cut_pair float_0_010285_def by (simp only: a b s q)
qed

lemma cut_99_of_pair: "quantile_cut [float_0_010285, float_0_010285] 100 99 = 2964449418720355 / 2 ^ 58"
proof -
  have a: "fl (5928898837440711 / 2 ^ 59 * (- 97)) = - 4492993650248039 / 2 ^ 52"
    by (subst fl_eval [where k = "- 1"]) (simp_all add: round_half_even_def Let_def)
  have b: "fl (5928898837440711 / 2 ^ 59 * 197) = 4562472933499297 / 2 ^ 51"
    by (subst fl_eval [where k = 1]) (simp_all add: round_half_even_def Let_def)
  have s: "fl (- 4492993650248039 / 2 ^ 52 + 4562472933499297 / 2 ^ 51) = 4631952216750555 / 2 ^ 52"
    by (subst fl_eval [where k = 0]) (simp_all add: round_half_even_def Let_def)
  have q: "fl (4631952216750555 / 2 ^ 52 / 100) = 2964449418720355 / 2 ^ 58"
    by (subst fl_eval [where k = "- 7"]) (simp_all add: round_half_even_def Let_def)
  show ?thesis
    unfolding quantile_cut_pair float_0_010285_def by (simp only: a b s q)
qed

text \<open>
  Claim C3, as it is stated, fails. On the window of two samples \<^verbatim>\<open>0.010285\<close> the code
  returns 10.29 for the percentile 95 and 10.28 for the percentile 99: the rounding of
  the two products inside \<^verbatim>\<open>statistics.quantiles\<close> puts one cut point a last bit above
  the sample and the other a last bit below, on the two sides of 10.285 ms.
\<close>

theorem p95_above_p99_counterexample:
  "calc_percentiles [float_0_010285, float_0_010285] 95 = Inr (1029 / 100)
   \<and> calc_percentiles [float_0_010285, float_0_010285] 99 = Inr (1028 / 100)
   \<and> (1028 / 100 :: real) < 1029 / 100"
proof -
  let ?win = "[float_0_010285, float_0_010285]"
  have two: "2 \<le> length ?win" by simp
  have srt: "sort ?win = ?win" by simp
  have m95: "fl (1000 * (741112354680089 / 2 ^ 56)) = 5789940270938195 / 2 ^ 49"
    by (subst fl_eval [where k = 3]) (simp_all add: round_half_even_def Let_def)
  have m99: "fl (1000 * (2964449418720355 / 2 ^ 58)) = 5789940270938193 / 2 ^ 49"
    by (subst fl_eval [where k = 3]) (simp_all add: round_half_even_def Let_def)
  have r95: "py_round (5789940270938195 / 2 ^ 49) 2 = 1029 / 100"
    by (simp add: py_round_def round_half_even_def Let_def)
  have r99: "py_round (5789940270938193 / 2 ^ 49) 2 = 1028 / 100"
    by (simp add: py_round_def round_half_even_def Let_def)
  have "calc_percentiles ?win 95 = Inr (py_round (fl (1000 * quantile_cut (sort ?win) 100 95)) 2)"
    using calc_percentiles_many [OF two, of 95] by simp
  then have p95: "calc_percentiles ?win 95 = Inr (1029 / 100)"
    by (simp only: srt cut_95_of_pair m95 r95)
  have "calc_percentiles ?win 99 = Inr (py_round (fl (1000 * quantile_cut (sort ?win) 100 99)) 2)"
    using calc_percentiles_many [OF two, of 99] by simp
  then have p99: "calc_percentiles ?win 99 = Inr (1028 / 100)"
    by (simp only: srt cut_99_of_pair m99 r99)
  show ?thesis using p95 p99 by simp
qed

text \<open>
  The first attempt fails only on fewer than two samples or on a percentile whose index
  is outside the 99 cut points.
\<close>

lemma primary_percentile_many_any:
  assumes "2 \<le> length samples" and "- 99 \<le> py_int pct - 1" and "py_int pct - 1 \<le> 98"
  shows "\<exists>v. primary_percentile samples pct = Inr v"
proof -
  have q: "quantiles samples 100 = Inr (map (quantile_cut (sort samples) 100) [1..<100])"
    using assms(1) by (simp add: quantiles_def Let_def del: upt_rec_numeral)
  have "\<exists>v. py_index (map (quantile_cut (sort samples) 100) [1..<100]) (py_int pct - 1) = Inr v"
    using assms(2,3) by (simp add: py_index_def Let_def del: upt_rec_numeral)
  then show ?thesis
    by (auto simp add: primary_percentile_def q simp del: upt_rec_numeral)
qed

lemma primary_unavailable_single:
  assumes "primary_percentile samples pct = Inl e" and "samples \<noteq> []"
    and "0 \<le> pct" and "pct < 100"
  shows "\<exists>x. samples = [x]"
proof (rule ccontr)
  assume "\<not> (\<exists>x. samples = [x])"
  with assms(2) have two: "2 \<le> length samples"
    by (cases samples; cases "tl samples") auto
  have "0 \<le> \<lfloor>pct\<rfloor>" and "\<lfloor>pct\<rfloor> \<le> 99" using assms(3,4) by linarith+
  then have "- 99 \<le> py_int pct - 1" and "py_int pct - 1 \<le> 98"
    using assms(3) by (simp_all add: py_int_def)
  from primary_percentile_many_any [OF two this] assms(1) show False by simp
qed

text \<open>
  Claim C2, as the code has it. On a window that is not empty and on which the first
  attempt raises, \<^verbatim>\<open>_calc_percentiles\<close> returns, rounded to two decimals, the element of
  the sorted samples in milliseconds at index \<open>max(0, int(n\<cdot>p/100) - 1)\<close>, and raises
  \<^verbatim>\<open>IndexError\<close> when that index is not below \<open>n\<close>. For a percentile from 0 up to but
  not including 100 the first attempt raises only on a single sample, and the result
  is that sample in milliseconds, rounded to two decimals.
\<close>

theorem fallback_percentile_rounded_previous_index:
  assumes "samples \<noteq> []" and "primary_percentile samples pct = Inl e"
  shows "calc_percentiles samples pct =
           (let ms = sorted_ms samples;
                idx = max 0 (py_int (of_nat (length samples) * pct / 100) - 1)
            in if idx < int (length samples) then Inr (py_round (ms ! nat idx) 2)
               else Inl IndexError)
         \<and> (0 \<le> pct \<and> pct < 100 \<longrightarrow>
              (\<exists>x. samples = [x] \<and> calc_percentiles samples pct = Inr (py_round (x * 1000) 2)))"
proof -
  have calc: "calc_percentiles samples pct = fallback_percentile samples pct"
    using assms by (simp add: calc_percentiles_def)
  define k where "k = max 0 (py_int (of_nat (length samples) * pct / 100) - 1)"
  have "0 \<le> k" by (simp add: k_def)
  then have "py_index (sorted_ms samples) k =
               (if k < int (length samples) then Inr (sorted_ms samples ! nat k) else Inl IndexError)"
    by (simp add: py_index_def Let_def length_sorted_ms)
  moreover have "fallback_percentile samples pct =
               (case py_index (sorted_ms samples) k of Inl e \<Rightarrow> Inl e | Inr v \<Rightarrow> Inr (py_round v 2))"
    by (simp only: fallback_percentile_def Let_def k_def length_sorted_ms)
  ultimately have idx: "calc_percentiles samples pct =
           (let ms = sorted_ms samples;
                idx = max 0 (py_int (of_nat (length samples) * pct / 100) - 1)
            in if idx < int (length samples) then Inr (py_round (ms ! nat idx) 2)
               else Inl IndexError)"
    unfolding calc by (simp add: Let_def k_def)
  have single: "\<exists>x. samples = [x] \<and> calc_percentiles samples pct = Inr (py_round (x * 1000) 2)"
    if pos: "0 \<le> pct" and below: "pct < 100"
  proof -
    obtain x where x: "samples = [x]"
      using primary_unavailable_single [OF assms(2,1) pos below] by blast
    have "fallback_percentile [x] pct = Inr (py_round (x * 1000) 2)"
      using pos below by (intro fallback_percentile_single) simp_all
    with x calc show ?thesis by simp
  qed
  show ?thesis using idx single by blast
qed

theorem fallback_percentile_rounded_previous_index_witness:
  "[1 / 1024 :: real] \<noteq> [] \<and> primary_percentile [1 / 1024] 95 = Inl StatisticsError
   \<and> (0::real) \<le> 95 \<and> (95::real) < 100
   \<and> calc_percentiles [1 / 1024] 95 = Inr (49 / 50)
   \<and> py_round ((1 / 1024) * 1000) 2 = 49 / 50"
proof -
  have p: "primary_percentile [1 / 1024] 95 = Inl StatisticsError"
    by (simp add: primary_percentile_def quantiles_def)
  have r: "py_round ((1 / 1024) * 1000) 2 = 49 / 50"
    by (simp add: py_round_def round_half_even_def Let_def)
  have ne: "[1 / 1024 :: real] \<noteq> []" by simp
  have range: "(0::real) \<le> 95 \<and> (95::real) < 100" by simp
  from fallback_percentile_rounded_previous_index [OF ne p, THEN conjunct2, THEN mp, OF range]
  obtain x where "[1 / 1024 :: real] = [x]"
    and "calc_percentiles [1 / 1024] 95 = Inr (py_round (x * 1000) 2)" by blast
  then have "calc_percentiles [1 / 1024] 95 = Inr (py_round ((1 / 1024) * 1000) 2)"
    by (simp only: list.inject)
  with p r ne range show ?thesis by (simp only: simp_thms)
qed

text \<open>
  Claim C2, as it is stated, fails. On the single sample of 1/1024 s the first attempt
  raises and the code returns 0.98, the sample 0.9765625 ms rounded, where the stated
  fallback returns the sample itself. On two samples and the percentile 100 the first
  attempt raises, the code returns the element at index 1 and the stated index, 2, is
  out of range.
\<close>

theorem fallback_percentile_counterexample:
  "primary_percentile [1 / 1024] 95 = Inl StatisticsError
   \<and> calc_percentiles [1 / 1024] 95 = Inr (49 / 50)
   \<and> spec_fallback_percentile [1 / 1024] 95 = Inr (125 / 128)
   \<and> calc_percentiles [1 / 1024] 95 \<noteq> spec_fallback_percentile [1 / 1024] 95
   \<and> primary_percentile [1 / 1000, 1 / 500] 100 = Inl IndexError
   \<and> calc_percentiles [1 / 1000, 1 / 500] 100 = Inr 2
   \<and> spec_fallback_percentile [1 / 1000, 1 / 500] 100 = Inl IndexError"
proof -
  have a: "primary_percentile [1 / 1024] 95 = Inl StatisticsError"
    by (simp add: primary_percentile_def quantiles_def)
  have b: "calc_percentiles [1 / 1024] 95 = Inr (49 / 50)"
    by (simp add: calc_percentiles_def a fallback_percentile_def
      sorted_ms_def py_index_def py_int_def py_round_def round_half_even_def Let_def)
  have c: "spec_fallback_percentile [1 / 1024] 95 = Inr (125 / 128)"
    by (simp add: spec_fallback_percentile_def sorted_ms_def py_index_def Let_def)
  have d: "primary_percentile [1 / 1000, 1 / 500] 100 = Inl IndexError"
    by (simp add: primary_percentile_def quantiles_def py_index_def py_int_def Let_def del: upt_rec_numeral)
  have e: "calc_percentiles [1 / 1000, 1 / 500] 100 = Inr 2"
    by (simp add: calc_percentiles_def d fallback_percentile_def
      sorted_ms_def py_index_def py_int_def py_round_def round_half_even_def Let_def)
  have f: "spec_fallback_percentile [1 / 1000, 1 / 500] 100 = Inl IndexError"
    by (simp add: spec_fallback_percentile_def sorted_ms_def py_index_def Let_def)
  show ?thesis by (simp add: a b c d e f)
qed



subsection \<open>The snapshot\<close>

text \<open>
  Claim C10. Every snapshot holds the first 20 entries of the recent-request log and the
  rows of the first 20 sessions in the order of \<^verbatim>\<open>session_data\<close>, so at most 20 of each,
  however long the log and the session table are; after any number of calls of
  \<^verbatim>\<open>record\<close> from the start of the server its recent requests are the entries of the
  last 20 calls, the newest first.
\<close>

theorem snapshot_bounded:
  "(\<exists>snap. get_metrics_copy w = Inr snap
      \<and> length (snap_recent_requests snap) \<le> 20
      \<and> length (session_summary snap) \<le> 20
      \<and> snap_recent_requests snap = take 20 (recent_requests (metrics w))
      \<and> session_summary snap = map session_row_of (take 20 (map snd (session_data w))))
   \<and> (\<exists>snap. get_metrics_copy (run_records cs initial_world) = Inr snap
      \<and> snap_recent_requests snap = take 20 (rev (map call_entry cs)))"
proof -
  obtain snap where s: "get_metrics_copy w = Inr snap"
     "snap_recent_requests snap = take 20 (recent_requests (metrics w))"
     "session_summary snap = map session_row_of (take 20 (map snd (session_data w)))"
    using get_metrics_copy_total by blast
  then have one: "\<exists>snap. get_metrics_copy w = Inr snap
      \<and> length (snap_recent_requests snap) \<le> 20
      \<and> length (session_summary snap) \<le> 20
      \<and> snap_recent_requests snap = take 20 (recent_requests (metrics w))
      \<and> session_summary snap = map session_row_of (take 20 (map snd (session_data w)))"
    by simp
  have "length (recent_requests (metrics initial_world)) \<le> MAX_RECENT"
    by (simp add: initial_world_def initial_metrics_def)
  from run_records_recent [OF this, of cs]
  have log: "recent_requests (metrics (run_records cs initial_world)) = take 100 (rev (map call_entry cs))"
    by (simp add: initial_world_def initial_metrics_def MAX_RECENT_def)
  obtain snap' where "get_metrics_copy (run_records cs initial_world) = Inr snap'"
     "snap_recent_requests snap' = take 20 (recent_requests (metrics (run_records cs initial_world)))"
    using get_metrics_copy_total by blast
  then have "\<exists>snap. get_metrics_copy (run_records cs initial_world) = Inr snap
      \<and> snap_recent_requests snap = take 20 (rev (map call_entry cs))"
    by (simp add: log)
  with one show ?thesis by blast
qed



subsection \<open>Two first requests from one address\<close>

text \<open>Every step keeps one row for an address: the table never holds a key twice.\<close>

lemma handler_step_distinct:
  "distinct (map fst (session_data w)) \<Longrightarrow>
   distinct (map fst (session_data (snd (handler_step h w))))"
  by (cases "h_pc h")
     (simp_all add: handler_step_def ensure_create_def apply_call_def record_req_def
        record_session_def Let_def distinct_update)

lemma run_schedule_distinct:
  "distinct (map fst (session_data w)) \<Longrightarrow>
   distinct (map fst (session_data (snd (snd (run_schedule bs (h1, h2, w))))))"
proof (induction bs arbitrary: h1 h2 w)
  case Nil
  then show ?case by simp
next
  case (Cons b bs)
  show ?case
  proof (cases b)
    case True
    obtain h2' w' where st: "handler_step h2 w = (h2', w')" by (cases "handler_step h2 w") auto
    then have "distinct (map fst (session_data w'))"
      using handler_step_distinct [OF Cons.prems, of h2] by simp
    from Cons.IH [OF this] True st show ?thesis by simp
  next
    case False
    obtain h1' w' where st: "handler_step h1 w = (h1', w')" by (cases "handler_step h1 w") auto
    then have "distinct (map fst (session_data w'))"
      using handler_step_distinct [OF Cons.prems, of h1] by simp
    from Cons.IH [OF this] False st show ?thesis by simp
  qed
qed

text \<open>
  A handler that takes its three steps with no step of the other in between does what
  \<^verbatim>\<open>_ensure_session_for_ip\<close> followed by \<^verbatim>\<open>record\<close> does.
\<close>

lemma handler_alone:
  assumes "h_pc h = AtTest"
  shows "snd (snd (run_schedule [False, False, False] (h, h2, w))) =
           apply_call (h_call h) (fst (ensure_session_for_ip (h_ens h) (rc_ip (h_call h)) w))
         \<and> h_pc (fst (run_schedule [False, False, False] (h, h2, w))) = Finished"
  using assms
  by (cases "map_of (session_data w) (rc_ip (h_call h))")
     (simp_all add: handler_step_def ensure_session_for_ip_def)

text \<open>When the two handlers run one after the other, the session ends with two hits.\<close>

lemma first_contact_in_turn:
  "(let c = run_schedule in_turn_schedule (first_handler, second_handler, initial_world);
        w = snd (snd c)
    in h_pc (fst c) = Finished \<and> h_pc (fst (snd c)) = Finished
       \<and> map fst (session_data w) = [''10.0.0.1'']
       \<and> map (\<lambda>p. hit_count (snd p)) (session_data w) = [2]
       \<and> map (\<lambda>p. session_id (snd p)) (session_data w) = [''aaaaaaaaaaaaaaaa'']
       \<and> total_requests (metrics w) = 2)"
  by (simp add: in_turn_schedule_def first_handler_def second_handler_def initial_world_def
      initial_metrics_def handler_step_def ensure_create_def apply_call_def record_req_def
      record_session_def Let_def)

text \<open>
  Claim C9 on the code. Both handlers find no session; the first stores one and records
  its request; then the second stores its own session over it, with the hit count 0,
  and records. Both handlers have finished and both requests are counted, the table
  holds one row for the address, but the row has one hit, not two, and its session id
  is the second handler's, not the one the first handler sent in its cookie.
\<close>

theorem concurrent_first_contact_loses_hit:
  "(let c = run_schedule racing_schedule (first_handler, second_handler, initial_world);
        w = snd (snd c)
    in h_pc (fst c) = Finished \<and> h_pc (fst (snd c)) = Finished
       \<and> map fst (session_data w) = [''10.0.0.1'']
       \<and> map (\<lambda>p. hit_count (snd p)) (session_data w) = [1]
       \<and> map (\<lambda>p. session_id (snd p)) (session_data w) = [''bbbbbbbbbbbbbbbb'']
       \<and> total_requests (metrics w) = 2)"
  by (simp add: racing_schedule_def first_handler_def second_handler_def initial_world_def
      initial_metrics_def handler_step_def ensure_create_def apply_call_def record_req_def
      record_session_def Let_def)

end
